theory Spec2Isabelle
  imports Complex_Main "HOL-Library.AList" "HOL-Library.Multiset" "HOL-Library.Word"
begin

section \<open>file\_hasher.py: the digest engine\<close>

text \<open>
  Bytes are 8-bit words. A Python \<^verbatim>\<open>dict\<close> is an association list in insertion order:
  \<open>AList.update\<close> overwrites the value of a key that is present and appends a new key at the
  end, as assignment to \<^verbatim>\<open>d[k]\<close> does.
\<close>

type_synonym byte = "8 word"
type_synonym bytes = "byte list"

datatype error =
    IOError
  | ValueError string
  | TypeError
  | AttributeError
  | IndexError
  | EOFError
  | FileExistsError
  | NotADirectoryError

text \<open>
  \<^verbatim>\<open>hashlib\<close> and \<^verbatim>\<open>zlib\<close> are libraries, not code of the repository: they are a parameter.
  \<open>new_hash\<close> is the constructor call \<^verbatim>\<open>SUPPORTED_ALGORITHMS[algorithm]()\<close>, \<open>update\<close> and
  \<open>hexdigest\<close> are the methods of a hash object (an object that is mutated in place is a
  value that is passed on), \<open>crc32\<close> is \<^verbatim>\<open>zlib.crc32(chunk, crc)\<close>.
\<close>

record 'h hashlib =
  new_hash :: "string \<Rightarrow> 'h"
  update :: "'h \<Rightarrow> bytes \<Rightarrow> 'h"
  hexdigest :: "'h \<Rightarrow> string"
  crc32 :: "bytes \<Rightarrow> int \<Rightarrow> int"

definition SUPPORTED_ALGORITHMS :: "string list" where
  "SUPPORTED_ALGORITHMS = [''md5'', ''sha1'', ''sha256'', ''sha512'', ''blake2b'', ''blake2s'']"

text \<open>
  The file system as the hasher sees it. A regular file has its bytes; \<open>open_ok\<close> says
  whether \<^verbatim>\<open>open(filepath, 'rb')\<close> succeeds, and \<open>fail_read = Some k\<close> that the read call
  number \<open>k\<close> (counted from 0) raises \<^verbatim>\<open>OSError\<close>.
\<close>

record regular_file =
  file_bytes :: bytes
  open_ok :: bool
  fail_read :: "nat option"

datatype node = Dir | File regular_file

type_synonym filesystem = "string \<Rightarrow> node option"

datatype event = OpenCall string | PrintedError string

text \<open>
  The fields of a \<^verbatim>\<open>FileHasher\<close> object, and \<open>io\<close>, the calls of \<^verbatim>\<open>open\<close> and the
  error lines printed so far. The chunk size is a natural number (65536 by default).
\<close>

record hasher =
  chunk_size :: nat
  processed_files :: nat
  total_size :: nat
  io :: "event list"

text \<open>\<^verbatim>\<open>f.read(n)\<close> at offset \<open>pos\<close>, as read call number \<open>k\<close>.\<close>

definition read_file :: "regular_file \<Rightarrow> nat \<Rightarrow> nat \<Rightarrow> nat \<Rightarrow> error + bytes" where
  "read_file f n pos k =
     (if fail_read f = Some k then Inl IOError else Inr (take n (drop pos (file_bytes f))))"

text \<open>
  \<^verbatim>\<open>while chunk := f.read(self.chunk_size): <step>\<close>, for a loop state \<open>s\<close>. The loop ends
  at the first empty chunk; an exception of the read or of the step leaves the loop.
\<close>

function read_loop ::
  "('s \<Rightarrow> bytes \<Rightarrow> error + 's) \<Rightarrow> regular_file \<Rightarrow> nat \<Rightarrow> nat \<Rightarrow> nat \<Rightarrow> 's \<Rightarrow> error + 's" where
  "read_loop step f n pos k s =
     (case read_file f n pos k of
        Inl e \<Rightarrow> Inl e
      | Inr chunk \<Rightarrow>
          if chunk = [] then Inr s
          else (case step s chunk of
                  Inl e \<Rightarrow> Inl e
                | Inr s' \<Rightarrow> read_loop step f n (pos + length chunk) (Suc k) s'))"
  by pat_completeness auto
termination
proof (relation "measure (\<lambda>(step, f, n, pos, k, s). length (file_bytes f) - pos)")
  show "wf (measure (\<lambda>(step, f, n, pos, k, s). length (file_bytes f) - pos))" by simp
next
  fix step :: "'s \<Rightarrow> bytes \<Rightarrow> error + 's" and f n pos k s chunk s'
  assume r: "read_file f n pos k = Inr chunk" and ne: "chunk \<noteq> []"
  from r have c: "chunk = take n (drop pos (file_bytes f))"
    by (simp add: read_file_def split: if_splits)
  with ne have "pos < length (file_bytes f)" by (cases "pos < length (file_bytes f)") auto
  moreover from ne have "0 < length chunk" by simp
  ultimately have "length (file_bytes f) - (pos + length chunk) < length (file_bytes f) - pos"
    by arith
  then show "((step, f, n, pos + length chunk, Suc k, s'), (step, f, n, pos, k, s))
        \<in> measure (\<lambda>(step, f, n, pos, k, s). length (file_bytes f) - pos)"
    by simp
qed

declare read_loop.simps [simp del]

text \<open>\<^verbatim>\<open>with open(filepath, 'rb') as f: <loop>\<close>: a path that is no regular file, or a file
  that cannot be opened, raises.\<close>

definition with_open ::
  "filesystem \<Rightarrow> string \<Rightarrow> ('s \<Rightarrow> bytes \<Rightarrow> error + 's) \<Rightarrow> nat \<Rightarrow> 's \<Rightarrow> error + 's" where
  "with_open fs filepath step n s =
     (case fs filepath of
        Some (File f) \<Rightarrow> if open_ok f then read_loop step f n 0 0 s else Inl IOError
      | _ \<Rightarrow> Inl IOError)"

text \<open>\<^verbatim>\<open>f"{crc & 0xffffffff:08x}"\<close>\<close>

definition hex_digit :: "nat \<Rightarrow> char" where
  "hex_digit d = ''0123456789abcdef'' ! (d mod 16)"

fun hex_digits :: "nat \<Rightarrow> nat \<Rightarrow> string" where
  "hex_digits 0 v = []"
| "hex_digits (Suc w) v = hex_digits w (v div 16) @ [hex_digit v]"

definition format_08x :: "int \<Rightarrow> string" where
  "format_08x crc = hex_digits 8 (nat (crc mod 2 ^ 32))"

definition calculate_crc32 :: "'h hashlib \<Rightarrow> filesystem \<Rightarrow> nat \<Rightarrow> string \<Rightarrow> error + string" where
  "calculate_crc32 L fs n filepath =
     (case with_open fs filepath (\<lambda>crc chunk. Inr (crc32 L chunk crc)) n 0 of
        Inl e \<Rightarrow> Inl e
      | Inr crc \<Rightarrow> Inr (format_08x crc))"

definition calculate_cryptographic_hash ::
  "'h hashlib \<Rightarrow> filesystem \<Rightarrow> nat \<Rightarrow> string \<Rightarrow> string \<Rightarrow> error + string" where
  "calculate_cryptographic_hash L fs n filepath algorithm =
     (case with_open fs filepath (\<lambda>hash_obj chunk. Inr (update L hash_obj chunk)) n
             (new_hash L algorithm) of
        Inl e \<Rightarrow> Inl e
      | Inr hash_obj \<Rightarrow> Inr (hexdigest L hash_obj))"

definition unsupported :: "string \<Rightarrow> error" where
  "unsupported algorithm = ValueError (''Unsupported algorithm: '' @ algorithm)"

text \<open>
  \<open>calculate_hash\<close>: the check of the algorithm comes first and raises; an \<^verbatim>\<open>IOError\<close> or
  \<^verbatim>\<open>OSError\<close> of the hashing is caught, printed, and \<^verbatim>\<open>None\<close> is returned. Any other
  exception is passed on.
\<close>

definition calculate_hash ::
  "'h hashlib \<Rightarrow> filesystem \<Rightarrow> string \<Rightarrow> string \<Rightarrow> hasher \<Rightarrow> (error + string option) \<times> hasher" where
  "calculate_hash L fs filepath algorithm h =
     (if algorithm \<notin> set SUPPORTED_ALGORITHMS \<and> algorithm \<noteq> ''crc32''
      then (Inl (unsupported algorithm), h)
      else
        let h' = h\<lparr>io := io h @ [OpenCall filepath]\<rparr>;
            r = (if algorithm = ''crc32'' then calculate_crc32 L fs (chunk_size h) filepath
                 else calculate_cryptographic_hash L fs (chunk_size h) filepath algorithm)
        in case r of
             Inr d \<Rightarrow> (Inr (Some d), h')
           | Inl IOError \<Rightarrow> (Inr None, h'\<lparr>io := io h' @ [PrintedError filepath]\<rparr>)
           | Inl e \<Rightarrow> (Inl e, h'))"

text \<open>
  A value of the \<^verbatim>\<open>hash_objects\<close> dict: the running checksum under the key \<^verbatim>\<open>'crc32'\<close>, a
  hash object under every other key.
\<close>

datatype 'h hash_object = Crc int | HashObj 'h

fun init_hash_objects ::
  "'h hashlib \<Rightarrow> string list \<Rightarrow> (string \<times> 'h hash_object) list
     \<Rightarrow> error + (string \<times> 'h hash_object) list" where
  "init_hash_objects L [] hash_objects = Inr hash_objects"
| "init_hash_objects L (algo # algorithms) hash_objects =
     (if algo = ''crc32''
      then init_hash_objects L algorithms (AList.update algo (Crc 0) hash_objects)
      else if algo \<in> set SUPPORTED_ALGORITHMS
      then init_hash_objects L algorithms
             (AList.update algo (HashObj (new_hash L algo)) hash_objects)
      else Inl (unsupported algo))"

text \<open>
  The body of the loop over \<^verbatim>\<open>hash_objects.items()\<close> for one chunk. The branch is chosen by
  the key, as in the source; a value of the other kind would make \<^verbatim>\<open>zlib.crc32\<close> raise
  \<^verbatim>\<open>TypeError\<close> and \<^verbatim>\<open>.update\<close> raise \<^verbatim>\<open>AttributeError\<close>.
\<close>

definition update_object ::
  "'h hashlib \<Rightarrow> bytes \<Rightarrow> string \<times> 'h hash_object \<Rightarrow> error + (string \<times> 'h hash_object)" where
  "update_object L chunk item =
     (case item of (algo, hash_obj) \<Rightarrow>
        if algo = ''crc32''
        then (case hash_obj of Crc v \<Rightarrow> Inr (algo, Crc (crc32 L chunk v))
                             | HashObj _ \<Rightarrow> Inl TypeError)
        else (case hash_obj of HashObj x \<Rightarrow> Inr (algo, HashObj (update L x chunk))
                             | Crc _ \<Rightarrow> Inl AttributeError))"

fun update_objects ::
  "'h hashlib \<Rightarrow> (string \<times> 'h hash_object) list \<Rightarrow> bytes
     \<Rightarrow> error + (string \<times> 'h hash_object) list" where
  "update_objects L [] chunk = Inr []"
| "update_objects L (item # items) chunk =
     (case update_object L chunk item of
        Inl e \<Rightarrow> Inl e
      | Inr item' \<Rightarrow>
          (case update_objects L items chunk of
             Inl e \<Rightarrow> Inl e
           | Inr items' \<Rightarrow> Inr (item' # items')))"

definition result_of :: "'h hashlib \<Rightarrow> string \<times> 'h hash_object \<Rightarrow> error + (string \<times> string)" where
  "result_of L item =
     (case item of (algo, hash_obj) \<Rightarrow>
        if algo = ''crc32''
        then (case hash_obj of Crc v \<Rightarrow> Inr (algo, format_08x v) | HashObj _ \<Rightarrow> Inl TypeError)
        else (case hash_obj of HashObj x \<Rightarrow> Inr (algo, hexdigest L x)
                             | Crc _ \<Rightarrow> Inl AttributeError))"

fun collect_results ::
  "'h hashlib \<Rightarrow> (string \<times> 'h hash_object) list \<Rightarrow> (string \<times> string) list
     \<Rightarrow> error + (string \<times> string) list" where
  "collect_results L [] results = Inr results"
| "collect_results L (item # items) results =
     (case result_of L item of
        Inl e \<Rightarrow> Inl e
      | Inr (algo, d) \<Rightarrow> collect_results L items (AList.update algo d results))"

definition calculate_multiple_hashes ::
  "'h hashlib \<Rightarrow> filesystem \<Rightarrow> string \<Rightarrow> string list \<Rightarrow> hasher
     \<Rightarrow> (error + (string \<times> string) list) \<times> hasher" where
  "calculate_multiple_hashes L fs filepath algorithms h =
     (case init_hash_objects L algorithms [] of
        Inl e \<Rightarrow> (Inl e, h)
      | Inr hash_objects \<Rightarrow>
          let h' = h\<lparr>io := io h @ [OpenCall filepath]\<rparr>;
              r = (case with_open fs filepath (update_objects L) (chunk_size h) hash_objects of
                     Inl e \<Rightarrow> Inl e
                   | Inr objs \<Rightarrow> collect_results L objs [])
          in case r of
               Inr results \<Rightarrow> (Inr results, h')
             | Inl IOError \<Rightarrow> (Inr [], h'\<lparr>io := io h' @ [PrintedError filepath]\<rparr>)
             | Inl e \<Rightarrow> (Inl e, h'))"

section \<open>file\_hasher.py: hashing one file and verifying a manifest\<close>

text \<open>
  A Python string is a list of characters; a character stands for a code point below 256.
  \<open>isspace\<close> is the white space of \<^verbatim>\<open>str.strip()\<close> and \<^verbatim>\<open>str.split()\<close> on these code
  points: tab, line feed, vertical tab, form feed, carriage return, the four separators
  28 to 31, the space, next line (133) and the no-break space (160). \<open>lower\<close> is
  \<^verbatim>\<open>str.lower()\<close> on them.
\<close>

definition isspace :: "char \<Rightarrow> bool" where
  "isspace c = (of_char c \<in> {9, 10, 11, 12, 13, 28, 29, 30, 31, 32, 133, 160 :: nat})"

definition lower_char :: "char \<Rightarrow> char" where
  "lower_char c =
     (let n = of_char c :: nat
      in if (65 \<le> n \<and> n \<le> 90) \<or> (192 \<le> n \<and> n \<le> 222 \<and> n \<noteq> 215)
         then char_of (n + 32) else c)"

definition lower :: "string \<Rightarrow> string" where
  "lower s = map lower_char s"

text \<open>\<^verbatim>\<open>os.path.basename\<close>: what follows the last slash.\<close>

definition basename :: "string \<Rightarrow> string" where
  "basename p = rev (takeWhile (\<lambda>c. c \<noteq> CHR ''/'') (rev p))"

text \<open>
  The values a manifest is made of, as \<^verbatim>\<open>json.loads\<close> or the line parser return them:
  \<^verbatim>\<open>None\<close>, strings, lists and dicts. A dict is the list of its items, in insertion
  order and with distinct keys. Numbers and booleans are left out: in the place of a path
  Python would take them for file descriptors.
\<close>

datatype json = JNull | JStr string | JList "json list" | JDict "(string \<times> json) list"

text \<open>
  The dict \<open>hash_file\<close> returns: \<^verbatim>\<open>{'error': ...}\<close> for a path that is no regular file, the
  file's record otherwise. The fields \<^verbatim>\<open>filepath\<close> (the absolute path), \<^verbatim>\<open>modified\<close>,
  \<^verbatim>\<open>modified_timestamp\<close> and \<^verbatim>\<open>processing_time\<close> depend on the working directory and the
  clock and are not modelled; no function below reads them.
\<close>

record file_info =
  filename :: string
  fsize :: nat
  hashes :: "(string \<times> string) list"

datatype hash_file_result = ErrorInfo string | FileInfo file_info

definition hash_file ::
  "'h hashlib \<Rightarrow> filesystem \<Rightarrow> string \<Rightarrow> string list option \<Rightarrow> hasher
     \<Rightarrow> (error + hash_file_result) \<times> hasher" where
  "hash_file L fs filepath algorithms_opt h =
     (let algorithms = (case algorithms_opt of None \<Rightarrow> [''sha256''] | Some algorithms \<Rightarrow> algorithms)
      in case fs filepath of
           Some (File f) \<Rightarrow>
             let info = \<lparr>filename = basename filepath, fsize = length (file_bytes f), hashes = []\<rparr>;
                 r = (case algorithms of
                        [algorithm] \<Rightarrow>
                          (case calculate_hash L fs filepath algorithm h of
                             (Inl e, h') \<Rightarrow> (Inl e, h')
                           | (Inr hash_value, h') \<Rightarrow>
                               (case hash_value of
                                  Some d \<Rightarrow>
                                    if d \<noteq> [] then (Inr (AList.update algorithm d []), h')
                                    else (Inr [], h')
                                | None \<Rightarrow> (Inr [], h')))
                      | _ \<Rightarrow> calculate_multiple_hashes L fs filepath algorithms h)
             in (case r of
                   (Inl e, h') \<Rightarrow> (Inl e, h')
                 | (Inr hs, h') \<Rightarrow>
                     (Inr (FileInfo (info\<lparr>hashes := hs\<rparr>)),
                      h'\<lparr>processed_files := processed_files h' + 1,
                         total_size := total_size h' + fsize info\<rparr>))
         | _ \<Rightarrow> (Inr (ErrorInfo (''File not found: '' @ filepath)), h))"

text \<open>
  The value of \<^verbatim>\<open>current_hash and current_hash.lower() == expected_hash.lower()\<close>: the
  left operand when it is \<^verbatim>\<open>None\<close> or the empty string, the comparison otherwise.
\<close>

datatype match_value = MNone | MEmpty | MBool bool

record match_info =
  expected :: json
  current :: "string option"
  matches :: match_value

definition compare_hash :: "string option \<Rightarrow> json \<Rightarrow> error + match_value" where
  "compare_hash current_hash expected_hash =
     (case current_hash of
        None \<Rightarrow> Inr MNone
      | Some c \<Rightarrow>
          if c = [] then Inr MEmpty
          else (case expected_hash of
                  JStr e \<Rightarrow> Inr (MBool (lower c = lower e))
                | _ \<Rightarrow> Inl AttributeError))"

text \<open>The loop over \<^verbatim>\<open>expected_hashes.items()\<close>, with \<open>hash_matches\<close> and \<open>overall_match\<close>.\<close>

fun check_hashes ::
  "(string \<times> string) list \<Rightarrow> (string \<times> json) list \<Rightarrow> (string \<times> match_info) list \<Rightarrow> bool
     \<Rightarrow> error + ((string \<times> match_info) list \<times> bool)" where
  "check_hashes current_hashes [] hash_matches overall_match = Inr (hash_matches, overall_match)"
| "check_hashes current_hashes ((algo, expected_hash) # items) hash_matches overall_match =
     (let current_hash = map_of current_hashes algo
      in case compare_hash current_hash expected_hash of
           Inl e \<Rightarrow> Inl e
         | Inr m \<Rightarrow>
             check_hashes current_hashes items
               (AList.update algo
                  \<lparr>expected = expected_hash, current = current_hash, matches = m\<rparr> hash_matches)
               (if m = MBool True then overall_match else False))"

record verification_result =
  vr_filepath :: string
  vr_filename :: string
  vr_size :: nat
  hash_matches :: "(string \<times> match_info) list"
  overall_match :: bool

text \<open>
  The four lists of \<open>verification_results\<close>. An item of \<open>missing\<close> is the path and the
  reason, an item of \<open>errors\<close> the path and the error text.
\<close>

record verification_results =
  verified :: "verification_result list"
  failed :: "verification_result list"
  missing :: "(string \<times> string) list"
  errors :: "(string \<times> string) list"

text \<open>
  The body of the loop over \<open>files_to_verify\<close>. \<^verbatim>\<open>.get\<close> on an entry that is no dict raises
  \<^verbatim>\<open>AttributeError\<close>; \<^verbatim>\<open>os.path.exists\<close> of a value that is no string raises
  \<^verbatim>\<open>TypeError\<close>, and so it does when the key \<^verbatim>\<open>'filepath'\<close> is absent and \<^verbatim>\<open>.get\<close> gives
  \<^verbatim>\<open>None\<close>; \<^verbatim>\<open>.keys()\<close> on expected hashes that are no dict raises \<^verbatim>\<open>AttributeError\<close>.
  The progress line \<^verbatim>\<open>Verifying: ...\<close> is not modelled.
\<close>

definition verify_entry ::
  "'h hashlib \<Rightarrow> filesystem \<Rightarrow> string \<Rightarrow> json \<Rightarrow> verification_results \<times> hasher
     \<Rightarrow> error + (verification_results \<times> hasher)" where
  "verify_entry L fs algorithm file_entry st =
     (case st of (results, h) \<Rightarrow>
      case file_entry of
        JDict d \<Rightarrow>
          (let filepath = map_of d ''filepath'';
               expected_hashes = (case map_of d ''hashes'' of None \<Rightarrow> JDict [] | Some v \<Rightarrow> v)
           in case filepath of
                Some (JStr p) \<Rightarrow>
                  if fs p = None
                  then Inr (results\<lparr>missing := missing results @ [(p, ''File not found'')]\<rparr>, h)
                  else
                    (case expected_hashes of
                       JDict eh \<Rightarrow>
                         (case hash_file L fs p (Some (map fst eh)) h of
                            (Inl e, h') \<Rightarrow> Inl e
                          | (Inr (ErrorInfo msg), h') \<Rightarrow>
                              Inr (results\<lparr>errors := errors results @ [(p, msg)]\<rparr>, h')
                          | (Inr (FileInfo current_file_info), h') \<Rightarrow>
                              (case check_hashes (hashes current_file_info) eh [] True of
                                 Inl e \<Rightarrow> Inl e
                               | Inr (hm, overall) \<Rightarrow>
                                   let verification_result =
                                         \<lparr>vr_filepath = p,
                                          vr_filename = filename current_file_info,
                                          vr_size = fsize current_file_info,
                                          hash_matches = hm,
                                          overall_match = overall\<rparr>
                                   in if overall
                                      then Inr (results\<lparr>verified :=
                                                  verified results @ [verification_result]\<rparr>, h')
                                      else Inr (results\<lparr>failed :=
                                                  failed results @ [verification_result]\<rparr>, h')))
                     | _ \<Rightarrow> Inl AttributeError)
              | _ \<Rightarrow> Inl TypeError)
      | _ \<Rightarrow> Inl AttributeError)"

fun verify_entries ::
  "'h hashlib \<Rightarrow> filesystem \<Rightarrow> string \<Rightarrow> json list \<Rightarrow> verification_results \<times> hasher
     \<Rightarrow> error + (verification_results \<times> hasher)" where
  "verify_entries L fs algorithm [] st = Inr st"
| "verify_entries L fs algorithm (file_entry # files_to_verify) st =
     (case verify_entry L fs algorithm file_entry st of
        Inl e \<Rightarrow> Inl e
      | Inr st' \<Rightarrow> verify_entries L fs algorithm files_to_verify st')"

text \<open>
  \<open>verify_hashes\<close> once the manifest is loaded into \<open>hash_data\<close>: a list is verified item by
  item, any other value as a single entry. Reading and decoding the manifest file comes
  before and is not part of this function.
\<close>

definition files_to_verify :: "json \<Rightarrow> json list" where
  "files_to_verify hash_data = (case hash_data of JList entries \<Rightarrow> entries | _ \<Rightarrow> [hash_data])"

definition verify_hashes ::
  "'h hashlib \<Rightarrow> filesystem \<Rightarrow> json \<Rightarrow> string \<Rightarrow> hasher
     \<Rightarrow> error + (verification_results \<times> hasher)" where
  "verify_hashes L fs hash_data algorithm h =
     verify_entries L fs algorithm (files_to_verify hash_data)
       (\<lparr>verified = [], failed = [], missing = [], errors = []\<rparr>, h)"

subsection \<open>The line-oriented manifest\<close>

text \<open>\<^verbatim>\<open>s.strip()\<close>, \<^verbatim>\<open>s.split('\n')\<close> and \<^verbatim>\<open>s.split(None, 1)\<close>.\<close>

definition strip :: "string \<Rightarrow> string" where
  "strip s = rev (dropWhile isspace (rev (dropWhile isspace s)))"

fun split_on :: "char \<Rightarrow> string \<Rightarrow> string list" where
  "split_on sep [] = [[]]"
| "split_on sep (c # s) =
     (if c = sep then [] # split_on sep s
      else (case split_on sep s of
              [] \<Rightarrow> [[c]]
            | part # parts \<Rightarrow> (c # part) # parts))"

text \<open>
  With at most one split, the white space before the first field is skipped, the first
  field ends at the next white space, and what follows the white space after it, if
  anything does, is the second field, taken to the end of the string.
\<close>

definition split_None_1 :: "string \<Rightarrow> string list" where
  "split_None_1 s =
     (let s1 = dropWhile isspace s
      in if s1 = [] then []
         else let first = takeWhile (\<lambda>c. \<not> isspace c) s1;
                  rest = dropWhile isspace (dropWhile (\<lambda>c. \<not> isspace c) s1)
              in if rest = [] then [first] else [first, rest])"

definition startswith :: "string \<Rightarrow> char \<Rightarrow> bool" where
  "startswith s c = (case s of [] \<Rightarrow> False | x # _ \<Rightarrow> x = c)"

text \<open>
  The loop of \<open>_parse_simple_hash_file\<close> over the lines, with the list \<open>results\<close>. The line
  that skips comments reads \<^verbatim>\<open>if not line or line.startswith('#'):\<close>.
\<close>

fun parse_lines :: "string list \<Rightarrow> json list \<Rightarrow> json list" where
  "parse_lines [] results = results"
| "parse_lines (raw # lines) results =
     (let line = strip raw
      in if line = [] \<or> startswith line CHR ''#'' then parse_lines lines results
         else (case split_None_1 line of
                 [hash_value, filepath] \<Rightarrow>
                   let filepath = (if startswith filepath CHR ''*'' then tl filepath else filepath)
                   in parse_lines lines
                        (results @ [JDict [(''filepath'', JStr filepath), (''hash'', JStr hash_value)]])
               | _ \<Rightarrow> parse_lines lines results))"

definition parse_simple_hash_file :: "string \<Rightarrow> string \<Rightarrow> json list" where
  "parse_simple_hash_file content default_algorithm =
     parse_lines (split_on (CHR 0x0A) (strip content)) []"

section \<open>duplicate\_finder.py: grouping and resolving duplicates\<close>

text \<open>
  A \<^verbatim>\<open>Path\<close> is the list of its components; \<open>p @ [name]\<close> is \<^verbatim>\<open>p / name\<close>. A file record is
  the tuple \<^verbatim>\<open>(filepath, file_size, mtime)\<close> of \<open>scan_directories\<close>; a modification time is
  the real number the float stands for. \<open>file_hashes\<close> and \<open>duplicates\<close> are dicts from a
  digest to a list of records.
\<close>

type_synonym path = "string list"
type_synonym file_record = "path \<times> nat \<times> real"

definition filepath_of :: "file_record \<Rightarrow> path" where
  "filepath_of x = fst x"

definition size_of :: "file_record \<Rightarrow> nat" where
  "size_of x = fst (snd x)"

definition mtime_of :: "file_record \<Rightarrow> real" where
  "mtime_of x = snd (snd x)"

record finder =
  file_hashes :: "(string \<times> file_record list) list"
  duplicates :: "(string \<times> file_record list) list"

definition new_finder :: finder where
  "new_finder = \<lparr>file_hashes = [], duplicates = []\<rparr>"

text \<open>
  What \<open>scan_directories\<close> does with one non-empty file it has visited, once its record and
  the result of \<open>calculate_file_hash\<close> are there (\<^verbatim>\<open>None\<close> for a file that could not be read):
  \<^verbatim>\<open>if file_hash: self.file_hashes[file_hash].append(file_info)\<close>. \<open>file_hashes\<close> is a
  \<^verbatim>\<open>defaultdict(list)\<close>: a digest that is not yet a key starts with the empty list.
\<close>

definition record_file :: "finder \<Rightarrow> file_record \<times> string option \<Rightarrow> finder" where
  "record_file F visited =
     (case visited of (file_info, file_hash) \<Rightarrow>
        (case file_hash of
           None \<Rightarrow> F
         | Some d \<Rightarrow>
             if d = [] then F
             else F\<lparr>file_hashes :=
                     AList.update d
                       ((case map_of (file_hashes F) d of None \<Rightarrow> [] | Some file_list \<Rightarrow> file_list)
                          @ [file_info])
                       (file_hashes F)\<rparr>))"

definition record_files :: "(file_record \<times> string option) list \<Rightarrow> finder" where
  "record_files visited = foldl record_file new_finder visited"

text \<open>
  \<open>find_duplicates\<close>: the loop over \<^verbatim>\<open>self.file_hashes.items()\<close>. \<^verbatim>\<open>file_list.sort(key=...)\<close>
  is stable, as \<open>sort_key\<close> is; it sorts the list in place, so the list in \<open>file_hashes\<close> is
  sorted as well.
\<close>

fun find_duplicates_loop ::
  "(string \<times> file_record list) list \<Rightarrow> (string \<times> file_record list) list
     \<Rightarrow> (string \<times> file_record list) list" where
  "find_duplicates_loop [] dups = dups"
| "find_duplicates_loop ((file_hash, file_list) # items) dups =
     (if length file_list > 1
      then find_duplicates_loop items (AList.update file_hash (sort_key mtime_of file_list) dups)
      else find_duplicates_loop items dups)"

definition find_duplicates :: "finder \<Rightarrow> finder" where
  "find_duplicates F =
     \<lparr>file_hashes =
        map (\<lambda>(file_hash, file_list).
               (file_hash, if length file_list > 1 then sort_key mtime_of file_list else file_list))
          (file_hashes F),
      duplicates = find_duplicates_loop (file_hashes F) (duplicates F)\<rparr>"

subsection \<open>The file system, the terminal and the messages\<close>

text \<open>
  The file system of the resolution: the entries that exist, each a directory or a
  regular file; a regular file may be protected, and then deleting or moving it raises
  \<^verbatim>\<open>PermissionError\<close>. The empty path is the working directory and always exists. All the
  exceptions of the file system are \<^verbatim>\<open>OSError\<close>, here \<open>IOError\<close>, its alias.
\<close>

datatype fnode = Directory | Regular bool

type_synonym tree = "(path \<times> fnode) list"

definition node_at :: "tree \<Rightarrow> path \<Rightarrow> fnode option" where
  "node_at fs p = (if p = [] then Some Directory else map_of fs p)"

definition path_exists :: "tree \<Rightarrow> path \<Rightarrow> bool" where
  "path_exists fs p = (node_at fs p \<noteq> None)"

text \<open>\<^verbatim>\<open>filepath.unlink()\<close>\<close>

definition unlink :: "tree \<Rightarrow> path \<Rightarrow> error + tree" where
  "unlink fs p =
     (case node_at fs p of
        Some (Regular protected) \<Rightarrow> if protected then Inl IOError else Inr (AList.delete p fs)
      | _ \<Rightarrow> Inl IOError)"

text \<open>
  \<^verbatim>\<open>os.rename\<close>: the entry and all that lies below it get the new path; the directory the
  new path lies in must exist, and an entry at the new path is replaced.
\<close>

definition reroot :: "path \<Rightarrow> path \<Rightarrow> path \<Rightarrow> path" where
  "reroot src dst p = (if take (length src) p = src then dst @ drop (length src) p else p)"

definition rename :: "tree \<Rightarrow> path \<Rightarrow> path \<Rightarrow> error + tree" where
  "rename fs src dst =
     (if src = [] \<or> dst = [] then Inl IOError
      else case node_at fs src of
             None \<Rightarrow> Inl IOError
           | Some (Regular True) \<Rightarrow> Inl IOError
           | Some nd \<Rightarrow>
               if node_at fs (butlast dst) \<noteq> Some Directory then Inl IOError
               else Inr (map (\<lambda>(p, n). (reroot src dst p, n)) (AList.delete dst fs)))"

text \<open>
  \<^verbatim>\<open>shutil.move(src, dst)\<close>: into \<open>dst\<close> when that is a directory, under the name of the source,
  unless that exists; a rename otherwise.
\<close>

definition name_of :: "path \<Rightarrow> string" where
  "name_of p = (if p = [] then [] else last p)"

definition move :: "tree \<Rightarrow> path \<Rightarrow> path \<Rightarrow> error + tree" where
  "move fs src dst =
     (case node_at fs dst of
        Some Directory \<Rightarrow>
          if path_exists fs (dst @ [name_of src]) then Inl IOError
          else rename fs src (dst @ [name_of src])
      | _ \<Rightarrow> rename fs src dst)"

text \<open>
  \<^verbatim>\<open>target_path.mkdir(parents=True, exist_ok=True)\<close>, along the prefixes of the path from the
  shortest: a missing one is created, a regular file in the way raises.
\<close>

fun mkdir_from :: "tree \<Rightarrow> path \<Rightarrow> string list \<Rightarrow> error + tree" where
  "mkdir_from fs done [] = Inr fs"
| "mkdir_from fs done (c # rest) =
     (case node_at fs (done @ [c]) of
        None \<Rightarrow> mkdir_from (fs @ [(done @ [c], Directory)]) (done @ [c]) rest
      | Some Directory \<Rightarrow> mkdir_from fs (done @ [c]) rest
      | Some (Regular _) \<Rightarrow> Inl (if rest = [] then FileExistsError else NotADirectoryError))"

definition mkdir_parents :: "tree \<Rightarrow> path \<Rightarrow> error + tree" where
  "mkdir_parents fs target = mkdir_from fs [] target"

text \<open>
  One constructor for each \<^verbatim>\<open>print\<close> of the two policies, with the values it interpolates;
  \<open>Prompt\<close> is the prompt of \<^verbatim>\<open>input\<close>. A byte count stands for the text \<open>format_size\<close> makes
  of it.
\<close>

datatype msg =
    NoDuplicatesToRemove
  | DryRunRemoveBanner
  | ProcessingSet string
  | Keeping path
  | Prompt path
  | Cancelled
  | Skipping path
  | Deleted path
  | WouldDelete path
  | ErrorDeleting path
  | RemoveSummary bool nat nat
  | NoDuplicatesToMove
  | DryRunMoveBanner
  | Moved path path
  | WouldMove path path
  | ErrorMoving path
  | MoveSummary bool nat path

record world =
  tree_of :: tree
  stdin :: "string list"
  stdout :: "msg list"

definition print :: "msg \<Rightarrow> world \<Rightarrow> world" where
  "print m w = w\<lparr>stdout := stdout w @ [m]\<rparr>"

text \<open>How a loop body ends: it goes on, the function returns, or an exception leaves it.\<close>

datatype 'a flow = Next 'a | Return | Raise error

subsection \<open>The remove policy\<close>

text \<open>
  The loop over \<open>duplicates_to_remove\<close>, with the counters \<open>(removed_count, space_freed)\<close>:
  \<open>delete_candidate\<close> is the \<^verbatim>\<open>try\<close> block, \<open>remove_candidate\<close> the body of the loop.
  \<^verbatim>\<open>input\<close> prints the prompt and takes the next line of \<open>stdin\<close>; at the end of the input it
  raises \<^verbatim>\<open>EOFError\<close>.
\<close>

definition delete_candidate :: "bool \<Rightarrow> file_record \<Rightarrow> nat \<times> nat \<Rightarrow> world \<Rightarrow> (nat \<times> nat) \<times> world" where
  "delete_candidate dry_run candidate counters w =
     (case candidate of (filepath, sz, mtime) \<Rightarrow>
      case counters of (removed_count, space_freed) \<Rightarrow>
        if \<not> dry_run
        then (case unlink (tree_of w) filepath of
                Inr fs' \<Rightarrow>
                  ((removed_count + 1, space_freed + sz),
                   print (Deleted filepath) (w\<lparr>tree_of := fs'\<rparr>))
              | Inl e \<Rightarrow> (counters, print (ErrorDeleting filepath) w))
        else ((removed_count + 1, space_freed + sz), print (WouldDelete filepath) w))"

definition remove_candidate ::
  "bool \<Rightarrow> bool \<Rightarrow> file_record \<Rightarrow> nat \<times> nat \<Rightarrow> world \<Rightarrow> (nat \<times> nat) flow \<times> world" where
  "remove_candidate interactive dry_run candidate counters w =
     (case candidate of (filepath, sz, mtime) \<Rightarrow>
        if interactive \<and> \<not> dry_run
        then (let w0 = print (Prompt filepath) w
              in case stdin w0 of
                   [] \<Rightarrow> (Raise EOFError, w0)
                 | line # lines \<Rightarrow>
                     let w1 = w0\<lparr>stdin := lines\<rparr>;
                         response = lower line
                     in if response = ''q'' then (Return, print Cancelled w1)
                        else if response \<noteq> ''y''
                        then (Next counters, print (Skipping filepath) w1)
                        else (case delete_candidate dry_run candidate counters w1 of
                                (counters', w2) \<Rightarrow> (Next counters', w2)))
        else (case delete_candidate dry_run candidate counters w of
                (counters', w2) \<Rightarrow> (Next counters', w2)))"

fun remove_loop ::
  "bool \<Rightarrow> bool \<Rightarrow> file_record list \<Rightarrow> nat \<times> nat \<Rightarrow> world \<Rightarrow> (nat \<times> nat) flow \<times> world" where
  "remove_loop interactive dry_run [] counters w = (Next counters, w)"
| "remove_loop interactive dry_run (candidate # rest) counters w =
     (case remove_candidate interactive dry_run candidate counters w of
        (Next counters', w') \<Rightarrow> remove_loop interactive dry_run rest counters' w'
      | (Return, w') \<Rightarrow> (Return, w')
      | (Raise e, w') \<Rightarrow> (Raise e, w'))"

text \<open>The loop over \<^verbatim>\<open>self.duplicates.items()\<close>; \<^verbatim>\<open>files[0]\<close> of an empty list raises.\<close>

fun remove_groups ::
  "bool \<Rightarrow> bool \<Rightarrow> (string \<times> file_record list) list \<Rightarrow> nat \<times> nat \<Rightarrow> world
     \<Rightarrow> (nat \<times> nat) flow \<times> world" where
  "remove_groups interactive dry_run [] counters w = (Next counters, w)"
| "remove_groups interactive dry_run ((file_hash, files) # groups) counters w =
     (let w1 = print (ProcessingSet (take 12 file_hash)) w
      in case files of
           [] \<Rightarrow> (Raise IndexError, w1)
         | original # duplicates_to_remove \<Rightarrow>
             (case remove_loop interactive dry_run duplicates_to_remove counters
                     (print (Keeping (filepath_of original)) w1) of
                (Next counters', w2) \<Rightarrow> remove_groups interactive dry_run groups counters' w2
              | (Return, w2) \<Rightarrow> (Return, w2)
              | (Raise e, w2) \<Rightarrow> (Raise e, w2)))"

definition remove_duplicates :: "finder \<Rightarrow> bool \<Rightarrow> bool \<Rightarrow> world \<Rightarrow> unit flow \<times> world" where
  "remove_duplicates F interactive dry_run w =
     (if duplicates F = [] then (Return, print NoDuplicatesToRemove w)
      else
        let w1 = (if dry_run then print DryRunRemoveBanner w else w)
        in case remove_groups interactive dry_run (duplicates F) (0, 0) w1 of
             (Next (removed_count, space_freed), w2) \<Rightarrow>
               (Next (), print (RemoveSummary dry_run space_freed removed_count) w2)
           | (Return, w2) \<Rightarrow> (Return, w2)
           | (Raise e, w2) \<Rightarrow> (Raise e, w2))"

subsection \<open>The relocate policy\<close>

text \<open>
  \<open>str_nat\<close> is the decimal text of a counter in an f-string. It is one-to-one, which the
  termination of the search for a free name rests on.
\<close>

definition digit_char :: "nat \<Rightarrow> char" where
  "digit_char d = char_of (48 + d mod 10)"

fun str_nat :: "nat \<Rightarrow> string" where
  "str_nat n = (if n < 10 then [digit_char n] else str_nat (n div 10) @ [digit_char n])"

declare str_nat.simps [simp del]

definition digit_value :: "char \<Rightarrow> nat" where
  "digit_value c = of_char c - 48"

definition int_str :: "string \<Rightarrow> nat" where
  "int_str s = foldl (\<lambda>a c. 10 * a + digit_value c) 0 s"

lemma digit_value_char: "digit_value (digit_char d) = d mod 10"
proof -
  have "(48 + d mod 10) mod 256 = 48 + d mod 10" by (simp add: mod_less)
  then show ?thesis by (simp add: digit_value_def digit_char_def)
qed

lemma int_str_nat: "int_str (str_nat n) = n"
proof (induction n rule: str_nat.induct)
  case (1 n)
  show ?case
  proof (cases "n < 10")
    case True
    then show ?thesis by (simp add: str_nat.simps [of n] int_str_def digit_value_char)
  next
    case False
    with 1 have "int_str (str_nat (n div 10)) = n div 10" by simp
    with False show ?thesis
      by (simp add: str_nat.simps [of n] int_str_def digit_value_char)
  qed
qed

lemma str_nat_inj: "str_nat m = str_nat n \<Longrightarrow> m = n"
  by (metis int_str_nat)


text \<open>\<^verbatim>\<open>f"{stem}_{counter}{suffix}"\<close>\<close>

definition numbered :: "string \<Rightarrow> string \<Rightarrow> nat \<Rightarrow> string" where
  "numbered stem suffix counter = stem @ ''_'' @ str_nat counter @ suffix"

lemma numbered_inj: "numbered stem suffix j = numbered stem suffix k \<Longrightarrow> j = k"
  by (simp add: numbered_def str_nat_inj)

text \<open>The counters from \<open>counter\<close> on whose numbered name exists in the target.\<close>

definition taken :: "tree \<Rightarrow> path \<Rightarrow> string \<Rightarrow> string \<Rightarrow> nat \<Rightarrow> nat set" where
  "taken fs target stem suffix counter =
     {k. counter \<le> k \<and> path_exists fs (target @ [numbered stem suffix k])}"

lemma finite_taken: "finite (taken fs target stem suffix counter)"
proof -
  let ?names = "last ` fst ` set fs"
  have "taken fs target stem suffix counter \<subseteq> numbered stem suffix -` ?names"
  proof
    fix k assume "k \<in> taken fs target stem suffix counter"
    then have "map_of fs (target @ [numbered stem suffix k]) \<noteq> None"
      by (simp add: taken_def path_exists_def node_at_def)
    then have "target @ [numbered stem suffix k] \<in> fst ` set fs"
      by (metis map_of_eq_None_iff)
    then have "last (target @ [numbered stem suffix k]) \<in> ?names" by (rule imageI)
    then show "k \<in> numbered stem suffix -` ?names" by simp
  qed
  moreover have "finite (numbered stem suffix -` ?names)"
    by (rule finite_vimageI) (auto simp: inj_on_def dest: numbered_inj)
  ultimately show ?thesis by (rule finite_subset)
qed

lemma taken_Suc:
  "taken fs target stem suffix counter =
     (if path_exists fs (target @ [numbered stem suffix counter])
      then insert counter (taken fs target stem suffix (Suc counter))
      else taken fs target stem suffix (Suc counter))"
  by (auto simp: taken_def Suc_le_eq le_less)

text \<open>
  \<^verbatim>\<open>while (target_path / new_name).exists(): new_name = ...; counter += 1\<close>. The file system
  is finite and the numbered names differ from each other, so the loop ends.
\<close>

function next_name :: "tree \<Rightarrow> path \<Rightarrow> string \<Rightarrow> string \<Rightarrow> nat \<Rightarrow> string \<Rightarrow> string" where
  "next_name fs target stem suffix counter new_name =
     (if path_exists fs (target @ [new_name])
      then next_name fs target stem suffix (counter + 1) (numbered stem suffix counter)
      else new_name)"
  by pat_completeness auto
termination
proof (relation "measure (\<lambda>(fs, target, stem, suffix, counter, new_name).
         card (taken fs target stem suffix counter)
           + (if path_exists fs (target @ [new_name]) then 1 else 0))")
  show "wf (measure (\<lambda>(fs, target, stem, suffix, counter, new_name).
         card (taken fs target stem suffix counter)
           + (if path_exists fs (target @ [new_name]) then 1 else 0)))" by simp
next
  fix fs :: tree and target :: path and stem suffix :: string and counter :: nat
    and new_name :: string
  assume ex: "path_exists fs (target @ [new_name])"
  have notin: "counter \<notin> taken fs target stem suffix (Suc counter)" by (simp add: taken_def)
  have "card (taken fs target stem suffix (Suc counter))
          + (if path_exists fs (target @ [numbered stem suffix counter]) then 1 else 0)
        = card (taken fs target stem suffix counter)"
    using notin finite_taken [of fs target stem suffix "Suc counter"]
    by (subst (2) taken_Suc) simp
  with ex show "((fs, target, stem, suffix, counter + 1, numbered stem suffix counter),
          (fs, target, stem, suffix, counter, new_name))
        \<in> measure (\<lambda>(fs, target, stem, suffix, counter, new_name).
         card (taken fs target stem suffix counter)
           + (if path_exists fs (target @ [new_name]) then 1 else 0))"
    by simp
qed

declare next_name.simps [simp del]

text \<open>
  \<^verbatim>\<open>name.rfind('.')\<close>, and the \<^verbatim>\<open>stem\<close> and \<^verbatim>\<open>suffix\<close> of \<^verbatim>\<open>pathlib\<close>: the name is cut at its last
  dot when that dot is neither its first nor its last character.
\<close>

definition rfind :: "char \<Rightarrow> string \<Rightarrow> int" where
  "rfind c s =
     (if c \<in> set s then int (length s) - 1 - int (length (takeWhile (\<lambda>x. x \<noteq> c) (rev s)))
      else - 1)"

definition suffix_of :: "string \<Rightarrow> string" where
  "suffix_of name =
     (let i = rfind (CHR ''.'') name
      in if 0 < i \<and> i < int (length name) - 1 then drop (nat i) name else [])"

definition stem_of :: "string \<Rightarrow> string" where
  "stem_of name =
     (let i = rfind (CHR ''.'') name
      in if 0 < i \<and> i < int (length name) - 1 then take (nat i) name else name)"

text \<open>
  The body of the loop over \<open>duplicates_to_move\<close>, with the counter \<open>moved_count\<close>: the free
  name is looked for in the file system as it is at that moment.
\<close>

definition move_candidate :: "path \<Rightarrow> bool \<Rightarrow> file_record \<Rightarrow> nat \<Rightarrow> world \<Rightarrow> nat \<times> world" where
  "move_candidate target_path dry_run candidate moved_count w =
     (case candidate of (filepath, sz, mtime) \<Rightarrow>
        let new_name = next_name (tree_of w) target_path (stem_of (name_of filepath))
                         (suffix_of (name_of filepath)) 1 (name_of filepath);
            new_path = target_path @ [new_name]
        in if \<not> dry_run
           then (case move (tree_of w) filepath new_path of
                   Inr fs' \<Rightarrow>
                     (moved_count + 1, print (Moved filepath new_path) (w\<lparr>tree_of := fs'\<rparr>))
                 | Inl e \<Rightarrow> (moved_count, print (ErrorMoving filepath) w))
           else (moved_count + 1, print (WouldMove filepath new_path) w))"

fun move_loop :: "path \<Rightarrow> bool \<Rightarrow> file_record list \<Rightarrow> nat \<Rightarrow> world \<Rightarrow> nat \<times> world" where
  "move_loop target_path dry_run [] moved_count w = (moved_count, w)"
| "move_loop target_path dry_run (candidate # rest) moved_count w =
     (case move_candidate target_path dry_run candidate moved_count w of
        (moved_count', w') \<Rightarrow> move_loop target_path dry_run rest moved_count' w')"

text \<open>The loop over \<^verbatim>\<open>self.duplicates.items()\<close>; \<^verbatim>\<open>files[1:]\<close> of an empty list is empty.\<close>

fun move_groups ::
  "path \<Rightarrow> bool \<Rightarrow> (string \<times> file_record list) list \<Rightarrow> nat \<Rightarrow> world \<Rightarrow> nat \<times> world" where
  "move_groups target_path dry_run [] moved_count w = (moved_count, w)"
| "move_groups target_path dry_run ((file_hash, files) # groups) moved_count w =
     (case move_loop target_path dry_run (drop 1 files) moved_count w of
        (moved_count', w') \<Rightarrow> move_groups target_path dry_run groups moved_count' w')"

definition move_duplicates_to_folder :: "finder \<Rightarrow> path \<Rightarrow> bool \<Rightarrow> world \<Rightarrow> unit flow \<times> world" where
  "move_duplicates_to_folder F target_path dry_run w =
     (if duplicates F = [] then (Return, print NoDuplicatesToMove w)
      else
        case (if \<not> dry_run then mkdir_parents (tree_of w) target_path else Inr (tree_of w)) of
          Inl e \<Rightarrow> (Raise e, w)
        | Inr fs' \<Rightarrow>
            let w1 = w\<lparr>tree_of := fs'\<rparr>;
                w2 = (if dry_run then print DryRunMoveBanner w1 else w1)
            in case move_groups target_path dry_run (duplicates F) 0 w2 of
                 (moved_count, w3) \<Rightarrow>
                   (Next (), print (MoveSummary dry_run moved_count target_path) w3))"
subsection \<open>Notions used to state the properties of the digest engine\<close>

text \<open>An identifier that neither entry point accepts.\<close>

definition bad_algorithm :: "string \<Rightarrow> bool" where
  "bad_algorithm a = (a \<noteq> ''crc32'' \<and> a \<notin> set SUPPORTED_ALGORITHMS)"

text \<open>
  The invariant of \<open>hash_objects\<close>: the key \<^verbatim>\<open>'crc32'\<close>, and only it, holds a checksum.
\<close>

definition well_kinded :: "(string \<times> 'h hash_object) list \<Rightarrow> bool" where
  "well_kinded objs = (\<forall>(a, obj) \<in> set objs. (a = ''crc32'') = (\<exists>v. obj = Crc v))"

text \<open>
  What one entry of \<open>hash_objects\<close> is before the first chunk, after one more chunk, and the
  digest it stands for at the end.
\<close>

definition initial_object :: "'h hashlib \<Rightarrow> string \<Rightarrow> 'h hash_object" where
  "initial_object L a = (if a = ''crc32'' then Crc 0 else HashObj (new_hash L a))"

definition advance :: "'h hashlib \<Rightarrow> bytes \<Rightarrow> 'h hash_object \<Rightarrow> 'h hash_object" where
  "advance L chunk obj =
     (case obj of Crc v \<Rightarrow> Crc (crc32 L chunk v) | HashObj x \<Rightarrow> HashObj (update L x chunk))"

definition digest_of :: "'h hashlib \<Rightarrow> 'h hash_object \<Rightarrow> string" where
  "digest_of L obj = (case obj of Crc v \<Rightarrow> format_08x v | HashObj x \<Rightarrow> hexdigest L x)"

text \<open>
  A pass over the file with chunk size \<open>n\<close> that does nothing with the chunks meets no
  error: the file is a regular file, it opens, and no read call of the pass raises.
\<close>

definition read_without_error :: "filesystem \<Rightarrow> string \<Rightarrow> nat \<Rightarrow> bool" where
  "read_without_error fs filepath n = (with_open fs filepath (\<lambda>s chunk. Inr s) n () = Inr ())"

subsection \<open>A sample library and a sample file system\<close>

text \<open>
  Concrete values at which the theorems below are instantiated. \<open>sample_hashlib\<close> stands in
  for the libraries with toy checksums; it is not the real MD5 or CRC-32.
\<close>

definition sample_hashlib :: "nat hashlib" where
  "sample_hashlib =
     \<lparr>new_hash = (\<lambda>algorithm. length algorithm),
      update = (\<lambda>x chunk. 31 * x + sum_list (map unat chunk)),
      hexdigest = hex_digits 8,
      crc32 = (\<lambda>chunk crc. (crc + int (sum_list (map unat chunk))) mod 2 ^ 32)\<rparr>"

definition sample_fs :: filesystem where
  "sample_fs =
     (\<lambda>p. if p = ''a.txt'' then Some (File \<lparr>file_bytes = [104, 105, 33], open_ok = True, fail_read = None\<rparr>)
          else if p = ''locked.txt'' then Some (File \<lparr>file_bytes = [104, 105], open_ok = False, fail_read = None\<rparr>)
          else if p = ''bad.txt'' then Some (File \<lparr>file_bytes = [104, 105, 33], open_ok = True, fail_read = Some 1\<rparr>)
          else if p = ''docs'' then Some Dir
          else None)"

definition sample_hasher :: hasher where
  "sample_hasher = \<lparr>chunk_size = 2, processed_files = 0, total_size = 0, io = []\<rparr>"

subsection \<open>Notions used to state the properties of the line parser\<close>

text \<open>
  The white-space separated fields of a line, as \<^verbatim>\<open>line.split()\<close> gives them, and the
  entries a line stands for: none for a comment and for a line of fewer than two fields,
  otherwise one, whose digest is the first field and whose path is the rest of the line
  after the white space that follows the first field, less one leading asterisk.
\<close>

fun fields_from :: "string \<Rightarrow> string \<Rightarrow> string list" where
  "fields_from cur [] = (if cur = [] then [] else [cur])"
| "fields_from cur (c # s) =
     (if isspace c then (if cur = [] then fields_from [] s else cur # fields_from [] s)
      else fields_from (cur @ [c]) s)"

definition fields :: "string \<Rightarrow> string list" where
  "fields s = fields_from [] s"

definition line_entry :: "string \<Rightarrow> json list" where
  "line_entry raw =
     (let line = strip raw
      in if startswith line CHR ''#'' \<or> length (fields line) < 2 then []
         else let digest = takeWhile (\<lambda>c. \<not> isspace c) line;
                  rest = dropWhile isspace (dropWhile (\<lambda>c. \<not> isspace c) line)
              in [JDict [(''filepath'', JStr (if startswith rest CHR ''*'' then tl rest else rest)),
                         (''hash'', JStr digest)]])"

subsection \<open>Notions used to state the properties of the verifier\<close>

text \<open>
  \<open>on_disk\<close>: every record in the lists \<open>verified\<close>, \<open>failed\<close> and \<open>errors\<close> names a path that
  exists. \<open>no_current\<close>: the comparison recorded for an algorithm when there is no current
  digest.
\<close>

definition on_disk :: "filesystem \<Rightarrow> verification_results \<Rightarrow> bool" where
  "on_disk fs r =
     ((\<forall>x \<in> set (verified r). fs (vr_filepath x) \<noteq> None)
      \<and> (\<forall>x \<in> set (failed r). fs (vr_filepath x) \<noteq> None)
      \<and> (\<forall>x \<in> set (errors r). fs (fst x) \<noteq> None))"

definition no_current :: "string \<times> json \<Rightarrow> string \<times> match_info" where
  "no_current item =
     (case item of (algo, expected_hash) \<Rightarrow>
        (algo, \<lparr>expected = expected_hash, current = None, matches = MNone\<rparr>))"

subsection \<open>Sample manifests\<close>

text \<open>
  \<open>spec_example\<close> is the entry of the specification's scenario, keyed \<^verbatim>\<open>"path"\<close>; the other
  entries are keyed \<^verbatim>\<open>"filepath"\<close>, as the code reads and writes them.
\<close>

definition spec_example :: json where
  "spec_example =
     JDict [(''path'', JStr ''missing.txt''), (''hashes'', JDict [(''sha256'', JStr ''abc'')])]"

definition sample_missing_entry :: "(string \<times> json) list" where
  "sample_missing_entry =
     [(''filepath'', JStr ''missing.txt''), (''hashes'', JDict [(''sha256'', JStr ''abc'')])]"

definition sample_bad_entry :: "(string \<times> json) list" where
  "sample_bad_entry =
     [(''filepath'', JStr ''bad.txt''), (''hashes'', JDict [(''sha256'', JStr ''abc'')])]"

definition sample_good_entry :: "(string \<times> json) list" where
  "sample_good_entry =
     [(''filepath'', JStr ''a.txt''), (''hashes'', JDict [(''md5'', JStr ''000024B3'')])]"

definition no_results :: verification_results where
  "no_results = \<lparr>verified = [], failed = [], missing = [], errors = []\<rparr>"

definition sample_run :: "verification_results \<times> hasher" where
  "sample_run =
     (\<lparr>verified =
         [\<lparr>vr_filepath = ''a.txt'', vr_filename = ''a.txt'', vr_size = 3,
           hash_matches =
             [(''md5'', \<lparr>expected = JStr ''000024B3'', current = Some ''000024b3'',
                          matches = MBool True\<rparr>)],
           overall_match = True\<rparr>],
       failed = [], missing = [(''missing.txt'', ''File not found'')], errors = []\<rparr>,
      \<lparr>chunk_size = 2, processed_files = 1, total_size = 3, io = [OpenCall ''a.txt'']\<rparr>)"

definition sample_failed_record :: verification_result where
  "sample_failed_record =
     \<lparr>vr_filepath = ''bad.txt'', vr_filename = ''bad.txt'', vr_size = 3,
      hash_matches = [(''sha256'', \<lparr>expected = JStr ''abc'', current = None, matches = MNone\<rparr>)],
      overall_match = False\<rparr>"

section \<open>Properties of the digest engine\<close>

text \<open>
  Two read loops over the same file, whose steps never fail and keep a relation between
  their states, end alike: both with the same error, or both normally in related states.
\<close>

lemma read_loop_sim:
  "(\<And>s t c. R s t \<Longrightarrow> \<exists>s' t'. step1 s c = Inr s' \<and> step2 t c = Inr t' \<and> R s' t')
     \<Longrightarrow> R s t
     \<Longrightarrow> rel_sum (=) R (read_loop step1 f n pos k s) (read_loop step2 f n pos k t)"
proof (induction step1 f n pos k s arbitrary: t rule: read_loop.induct)
  case (1 step1 f n pos k s)
  note step = "1.prems"(1) and rel = "1.prems"(2)
  show ?case
  proof (cases "read_file f n pos k")
    case (Inl e)
    then show ?thesis by (simp add: read_loop.simps [of _ f n pos k])
  next
    case (Inr chunk)
    show ?thesis
    proof (cases "chunk = []")
      case True
      with Inr rel show ?thesis by (simp add: read_loop.simps [of _ f n pos k])
    next
      case False
      from step [OF rel, of chunk] obtain s' t'
        where s: "step1 s chunk = Inr s'" and t: "step2 t chunk = Inr t'" and r: "R s' t'"
        by blast
      from "1.IH" [OF Inr False s step r] Inr False s t show ?thesis
        by (simp add: read_loop.simps [of _ f n pos k])
    qed
  qed
qed

lemma update_fresh: "k \<notin> fst ` set al \<Longrightarrow> AList.update k v al = al @ [(k, v)]"
  by (induction al) auto

lemma set_update_subset: "set (AList.update k v al) \<subseteq> insert (k, v) (set al)"
  by (induction al) auto

lemma well_kinded_update:
  assumes "well_kinded objs"
  shows "well_kinded (AList.update a (initial_object L a) objs)"
proof -
  have "(b = ''crc32'') = (\<exists>v. obj = Crc v)"
    if "(b, obj) \<in> set (AList.update a (initial_object L a) objs)" for b obj
  proof -
    from that set_update_subset [of a "initial_object L a" objs]
    have "(b, obj) = (a, initial_object L a) \<or> (b, obj) \<in> set objs" by blast
    with assms show ?thesis by (auto simp: well_kinded_def initial_object_def split: if_splits)
  qed
  then show ?thesis unfolding well_kinded_def by blast
qed

lemma init_hash_objects_ok:
  "\<forall>a \<in> set algorithms. \<not> bad_algorithm a \<Longrightarrow> well_kinded objs \<Longrightarrow> distinct (map fst objs)
   \<Longrightarrow> \<exists>objs'. init_hash_objects L algorithms objs = Inr objs' \<and> well_kinded objs'
         \<and> distinct (map fst objs') \<and> set (map fst objs') = set (map fst objs) \<union> set algorithms
         \<and> (\<forall>a. map_of objs' a =
               (if a \<in> set algorithms then Some (initial_object L a) else map_of objs a))"
proof (induction algorithms arbitrary: objs)
  case Nil
  then show ?case by simp
next
  case (Cons a algorithms)
  let ?objs = "AList.update a (initial_object L a) objs"
  have step: "init_hash_objects L (a # algorithms) objs = init_hash_objects L algorithms ?objs"
    using Cons.prems(1) by (auto simp: bad_algorithm_def initial_object_def)
  have wk: "well_kinded ?objs" using Cons.prems(2) by (rule well_kinded_update)
  have di: "distinct (map fst ?objs)" using Cons.prems(3) by (rule distinct_update)
  from Cons.prems(1) have "\<forall>a \<in> set algorithms. \<not> bad_algorithm a" by simp
  from Cons.IH [OF this wk di] obtain objs' where
    r: "init_hash_objects L algorithms ?objs = Inr objs'" and w: "well_kinded objs'"
    and d: "distinct (map fst objs')"
    and k: "set (map fst objs') = set (map fst ?objs) \<union> set algorithms"
    and m: "\<forall>b. map_of objs' b =
               (if b \<in> set algorithms then Some (initial_object L b) else map_of ?objs b)"
    by blast
  have k': "set (map fst objs') = set (map fst objs) \<union> set (a # algorithms)"
    using k dom_update [of a "initial_object L a" objs] by auto
  have m': "\<forall>b. map_of objs' b =
               (if b \<in> set (a # algorithms) then Some (initial_object L b) else map_of objs b)"
    using m by (auto simp: update_conv')
  from step r w d k' m' show ?case by simp
qed

lemma update_objects_ok:
  "well_kinded objs \<Longrightarrow>
     update_objects L objs chunk = Inr (map (\<lambda>(a, obj). (a, advance L chunk obj)) objs)"
  by (induction objs)
     (auto simp: well_kinded_def update_object_def advance_def split: hash_object.splits)

lemma well_kinded_advance:
  "well_kinded objs \<Longrightarrow> well_kinded (map (\<lambda>(a, obj). (a, advance L chunk obj)) objs)"
  by (auto simp: well_kinded_def advance_def split: hash_object.splits)

lemma map_of_advance:
  "map_of (map (\<lambda>(a, obj). (a, advance L chunk obj)) objs) a
     = map_option (advance L chunk) (map_of objs a)"
  by (induction objs) auto

lemma collect_results_ok:
  "well_kinded objs \<Longrightarrow> distinct (map fst objs) \<Longrightarrow> fst ` set results \<inter> fst ` set objs = {}
   \<Longrightarrow> collect_results L objs results
         = Inr (results @ map (\<lambda>(a, obj). (a, digest_of L obj)) objs)"
proof (induction objs arbitrary: results)
  case Nil
  then show ?case by simp
next
  case (Cons item objs)
  obtain a obj where item: "item = (a, obj)" by (cases item)
  from Cons.prems(1) item have ro: "result_of L item = Inr (a, digest_of L obj)"
    by (auto simp: well_kinded_def result_of_def digest_of_def split: hash_object.splits)
  from Cons.prems(3) item have fresh: "a \<notin> fst ` set results" by auto
  have wk: "well_kinded objs" using Cons.prems(1) by (simp add: well_kinded_def)
  have di: "distinct (map fst objs)" using Cons.prems(2) by simp
  have dj: "fst ` set (results @ [(a, digest_of L obj)]) \<inter> fst ` set objs = {}"
    using Cons.prems(2,3) item by auto
  show ?case
    using Cons.IH [OF wk di dj] ro item by (simp add: update_fresh [OF fresh])
qed

lemma with_open_sim:
  assumes "\<And>s t c. R s t \<Longrightarrow> \<exists>s' t'. step1 s c = Inr s' \<and> step2 t c = Inr t' \<and> R s' t'"
    and "R s t"
  shows "rel_sum (=) R (with_open fs filepath step1 n s) (with_open fs filepath step2 n t)"
proof (cases "fs filepath")
  case None
  then show ?thesis by (simp add: with_open_def)
next
  case (Some nd)
  show ?thesis
  proof (cases nd)
    case Dir
    with Some show ?thesis by (simp add: with_open_def)
  next
    case (File f)
    with Some read_loop_sim [of R step1 step2 s t f n 0 0, OF assms]
    show ?thesis by (simp add: with_open_def)
  qed
qed

lemma multi_pass:
  assumes ok: "read_without_error fs filepath n" and wk: "well_kinded objs"
  shows "\<exists>objs'. with_open fs filepath (update_objects L) n objs = Inr objs'
           \<and> well_kinded objs' \<and> map fst objs' = map fst objs"
proof -
  let ?R = "\<lambda>objs' (u::unit). well_kinded objs' \<and> map fst objs' = map fst objs"
  have "rel_sum (=) ?R (with_open fs filepath (update_objects L) n objs)
          (with_open fs filepath (\<lambda>s chunk. Inr s) n ())"
  proof (rule with_open_sim)
    show "?R objs ()" using wk by simp
  next
    fix s :: "(string \<times> 'a hash_object) list" and t :: unit and c
    assume "?R s t"
    then show "\<exists>s' t'. update_objects L s c = Inr s' \<and> Inr t = Inr t' \<and> ?R s' t'"
      by (auto simp: update_objects_ok well_kinded_advance comp_def case_prod_beta)
  qed
  with ok show ?thesis
    by (cases "with_open fs filepath (update_objects L) n objs")
       (auto simp: read_without_error_def)
qed

lemma multi_pass_entry:
  assumes wk: "well_kinded objs" and a: "map_of objs a = Some obj"
  shows "rel_sum (=) (\<lambda>objs' obj'. map_of objs' a = Some obj')
           (with_open fs filepath (update_objects L) n objs)
           (with_open fs filepath (\<lambda>obj chunk. Inr (advance L chunk obj)) n obj)"
proof -
  let ?R = "\<lambda>objs' obj'. well_kinded objs' \<and> map_of objs' a = Some obj'"
  have "rel_sum (=) ?R (with_open fs filepath (update_objects L) n objs)
          (with_open fs filepath (\<lambda>obj chunk. Inr (advance L chunk obj)) n obj)"
  proof (rule with_open_sim)
    show "?R objs obj" using wk a by simp
  next
    fix s :: "(string \<times> 'a hash_object) list" and t c
    assume "?R s t"
    then show "\<exists>s' t'. update_objects L s c = Inr s' \<and> Inr (advance L c t) = Inr t' \<and> ?R s' t'"
      by (simp add: update_objects_ok well_kinded_advance map_of_advance)
  qed
  then show ?thesis by (rule sum.rel_mono_strong) auto
qed

lemma crc_pass:
  "rel_sum (=) (\<lambda>crc obj. obj = Crc crc)
     (with_open fs filepath (\<lambda>crc chunk. Inr (crc32 L chunk crc)) n v)
     (with_open fs filepath (\<lambda>obj chunk. Inr (advance L chunk obj)) n (Crc v))"
  by (rule with_open_sim) (auto simp: advance_def)

lemma hash_pass:
  "rel_sum (=) (\<lambda>x obj. obj = HashObj x)
     (with_open fs filepath (\<lambda>hash_obj chunk. Inr (update L hash_obj chunk)) n x)
     (with_open fs filepath (\<lambda>obj chunk. Inr (advance L chunk obj)) n (HashObj x))"
  by (rule with_open_sim) (auto simp: advance_def)

lemma map_of_digests:
  "map_of (map (\<lambda>(a, obj). (a, digest_of L obj)) objs) a = map_option (digest_of L) (map_of objs a)"
  by (induction objs) auto

lemma single_pass:
  assumes a: "\<not> bad_algorithm a"
    and p: "with_open fs filepath (\<lambda>obj chunk. Inr (advance L chunk obj)) (chunk_size h)
              (initial_object L a) = Inr obj'"
  shows "fst (calculate_hash L fs filepath a h) = Inr (Some (digest_of L obj'))"
proof (cases "a = ''crc32''")
  case True
  from crc_pass [of fs filepath L "chunk_size h" 0] p True
  obtain c where "with_open fs filepath (\<lambda>crc chunk. Inr (crc32 L chunk crc)) (chunk_size h) 0 = Inr c"
    and "obj' = Crc c"
    by (cases "with_open fs filepath (\<lambda>crc chunk. Inr (crc32 L chunk crc)) (chunk_size h) 0")
       (auto simp: initial_object_def)
  with True show ?thesis
    by (simp add: calculate_hash_def calculate_crc32_def digest_of_def Let_def)
next
  case False
  from hash_pass [of fs filepath L "chunk_size h" "new_hash L a"] p False
  obtain x where "with_open fs filepath (\<lambda>hash_obj chunk. Inr (update L hash_obj chunk))
                    (chunk_size h) (new_hash L a) = Inr x"
    and "obj' = HashObj x"
    by (cases "with_open fs filepath (\<lambda>hash_obj chunk. Inr (update L hash_obj chunk))
                    (chunk_size h) (new_hash L a)")
       (auto simp: initial_object_def)
  with False a show ?thesis
    by (simp add: calculate_hash_def calculate_cryptographic_hash_def digest_of_def Let_def
                  bad_algorithm_def)
qed

text \<open>
  Claim C1. For a file that is read without error and a list of supported identifiers,
  \<open>calculate_multiple_hashes\<close> opens the file once and returns a dict with exactly one entry
  for each requested algorithm (its keys are distinct and are the requested identifiers),
  and the entry of each algorithm is the digest that \<open>calculate_hash\<close> returns for the same
  file and that algorithm alone.
\<close>

theorem one_pass_equals_separate:
  assumes ok: "read_without_error fs filepath (chunk_size h)"
    and sup: "set algorithms \<subseteq> insert ''crc32'' (set SUPPORTED_ALGORITHMS)"
  shows "\<exists>results.
           calculate_multiple_hashes L fs filepath algorithms h
             = (Inr results, h\<lparr>io := io h @ [OpenCall filepath]\<rparr>)
         \<and> distinct (map fst results)
         \<and> set (map fst results) = set algorithms
         \<and> (\<forall>a \<in> set algorithms. \<exists>d. map_of results a = Some d
                \<and> fst (calculate_hash L fs filepath a h) = Inr (Some d))"
proof -
  from sup have nb: "\<forall>a \<in> set algorithms. \<not> bad_algorithm a"
    by (auto simp: bad_algorithm_def)
  have "well_kinded ([] :: (string \<times> 'a hash_object) list)" by (simp add: well_kinded_def)
  from init_hash_objects_ok [OF nb this, of L] obtain objs where
    i: "init_hash_objects L algorithms [] = Inr objs" and wk: "well_kinded objs"
    and di: "distinct (map fst objs)" and ks: "set (map fst objs) = set algorithms"
    and mo: "\<forall>a. map_of objs a = (if a \<in> set algorithms then Some (initial_object L a) else None)"
    by auto
  from multi_pass [OF ok wk, of L] obtain objs' where
    p: "with_open fs filepath (update_objects L) (chunk_size h) objs = Inr objs'"
    and wk': "well_kinded objs'" and ks': "map fst objs' = map fst objs"
    by blast
  let ?results = "map (\<lambda>(a, obj). (a, digest_of L obj)) objs'"
  from di ks' have di': "distinct (map fst objs')" by simp
  from collect_results_ok [OF wk' di', of "[]" L]
  have c: "collect_results L objs' [] = Inr ?results" by simp
  have run: "calculate_multiple_hashes L fs filepath algorithms h
               = (Inr ?results, h\<lparr>io := io h @ [OpenCall filepath]\<rparr>)"
    by (simp add: calculate_multiple_hashes_def i p c Let_def)
  have keys: "map fst ?results = map fst objs" using ks' by (simp add: comp_def case_prod_beta)
  have each: "\<exists>d. map_of ?results a = Some d
                \<and> fst (calculate_hash L fs filepath a h) = Inr (Some d)"
    if a: "a \<in> set algorithms" for a
  proof -
    from mo a have "map_of objs a = Some (initial_object L a)" by simp
    from multi_pass_entry [OF wk this, of fs filepath L "chunk_size h"] p
    obtain obj' where s: "with_open fs filepath (\<lambda>obj chunk. Inr (advance L chunk obj))
                            (chunk_size h) (initial_object L a) = Inr obj'"
      and m: "map_of objs' a = Some obj'"
      by (cases "with_open fs filepath (\<lambda>obj chunk. Inr (advance L chunk obj))
                            (chunk_size h) (initial_object L a)") auto
    from nb a have "\<not> bad_algorithm a" by simp
    from single_pass [OF this s] m show ?thesis by (simp add: map_of_digests)
  qed
  from run keys di ks each show ?thesis by (intro exI [of _ ?results]) simp
qed

theorem one_pass_equals_separate_witness:
  "read_without_error sample_fs ''a.txt'' (chunk_size sample_hasher)
   \<and> set [''md5'', ''crc32''] \<subseteq> insert ''crc32'' (set SUPPORTED_ALGORITHMS)
   \<and> (\<exists>results.
           calculate_multiple_hashes sample_hashlib sample_fs ''a.txt'' [''md5'', ''crc32''] sample_hasher
             = (Inr results, sample_hasher\<lparr>io := io sample_hasher @ [OpenCall ''a.txt'']\<rparr>)
         \<and> distinct (map fst results)
         \<and> set (map fst results) = set [''md5'', ''crc32'']
         \<and> (\<forall>a \<in> set [''md5'', ''crc32'']. \<exists>d. map_of results a = Some d
                \<and> fst (calculate_hash sample_hashlib sample_fs ''a.txt'' a sample_hasher) = Inr (Some d)))"
proof -
  have r: "read_without_error sample_fs ''a.txt'' (chunk_size sample_hasher)"
    by (simp add: read_without_error_def with_open_def sample_fs_def sample_hasher_def
        read_loop.simps read_file_def)
  have s: "set [''md5'', ''crc32''] \<subseteq> insert ''crc32'' (set SUPPORTED_ALGORITHMS)"
    by (simp add: SUPPORTED_ALGORITHMS_def)
  from one_pass_equals_separate [OF r s, of sample_hashlib] r s show ?thesis by blast
qed

lemma init_hash_objects_bad:
  "find bad_algorithm algorithms = Some b \<Longrightarrow> init_hash_objects L algorithms objs = Inl (unsupported b)"
  by (induction algorithms arbitrary: objs) (auto simp: bad_algorithm_def split: if_splits)

text \<open>
  Claim C3. An identifier outside md5, sha1, sha256, sha512, blake2b, blake2s and crc32
  makes \<open>calculate_hash\<close> raise \<^verbatim>\<open>ValueError("Unsupported algorithm: ...")\<close>, and
  \<open>calculate_multiple_hashes\<close> raise it for the first such identifier of its list; in both
  cases the hasher comes back unchanged, its \<open>io\<close> included: \<^verbatim>\<open>open\<close> was not called.
\<close>

theorem unsupported_algorithm_raises_before_open:
  assumes "algorithm \<noteq> ''crc32''" and "algorithm \<notin> set SUPPORTED_ALGORITHMS"
  shows "calculate_hash L fs filepath algorithm h = (Inl (unsupported algorithm), h)
       \<and> (algorithm \<in> set algorithms \<longrightarrow>
            (\<exists>b. find bad_algorithm algorithms = Some b
               \<and> calculate_multiple_hashes L fs filepath algorithms h = (Inl (unsupported b), h)))"
proof -
  have one: "calculate_hash L fs filepath algorithm h = (Inl (unsupported algorithm), h)"
    using assms by (simp add: calculate_hash_def)
  have many: "\<exists>b. find bad_algorithm algorithms = Some b
               \<and> calculate_multiple_hashes L fs filepath algorithms h = (Inl (unsupported b), h)"
    if "algorithm \<in> set algorithms"
  proof -
    from that assms have "\<exists>a \<in> set algorithms. bad_algorithm a"
      by (auto simp: bad_algorithm_def)
    then obtain b where b: "find bad_algorithm algorithms = Some b"
      by (cases "find bad_algorithm algorithms") (auto simp: find_None_iff)
    from init_hash_objects_bad [OF b, of L "[]"] b show ?thesis
      by (simp add: calculate_multiple_hashes_def)
  qed
  from one many show ?thesis by blast
qed

theorem unsupported_algorithm_raises_before_open_witness:
  "''sha3'' \<noteq> ''crc32'' \<and> ''sha3'' \<notin> set SUPPORTED_ALGORITHMS
   \<and> calculate_hash sample_hashlib sample_fs ''a.txt'' ''sha3'' sample_hasher
        = (Inl (unsupported ''sha3''), sample_hasher)
   \<and> ''sha3'' \<in> set [''md5'', ''sha3'']
   \<and> (\<exists>b. find bad_algorithm [''md5'', ''sha3''] = Some b
           \<and> calculate_multiple_hashes sample_hashlib sample_fs ''a.txt'' [''md5'', ''sha3'']
                 sample_hasher = (Inl (unsupported b), sample_hasher))"
proof -
  have a: "''sha3'' \<noteq> ''crc32''" by simp
  have b: "''sha3'' \<notin> set SUPPORTED_ALGORITHMS" by (simp add: SUPPORTED_ALGORITHMS_def)
  have c: "''sha3'' \<in> set [''md5'', ''sha3'']" by simp
  from unsupported_algorithm_raises_before_open [OF a b, of sample_hashlib sample_fs "''a.txt''"
      sample_hasher "[''md5'', ''sha3'']"] a b c
  show ?thesis by blast
qed

lemma read_loop_error:
  "(\<And>s c. \<exists>s'. step s c = Inr s') \<Longrightarrow> read_loop step f n pos k s = Inl e \<Longrightarrow> e = IOError"
proof (induction step f n pos k s rule: read_loop.induct)
  case (1 step f n pos k s)
  show ?case
  proof (cases "read_file f n pos k")
    case (Inl e')
    with "1.prems"(2) show ?thesis
      by (simp add: read_loop.simps [of _ f n pos k] read_file_def split: if_splits)
  next
    case (Inr chunk)
    show ?thesis
    proof (cases "chunk = []")
      case True
      with Inr "1.prems"(2) show ?thesis by (simp add: read_loop.simps [of _ f n pos k])
    next
      case False
      from "1.prems"(1) obtain s' where s: "step s chunk = Inr s'" by blast
      from "1.prems"(2) Inr False s
      have "read_loop step f n (pos + length chunk) (Suc k) s' = Inl e"
        by (simp add: read_loop.simps [of _ f n pos k])
      from "1.IH" [OF Inr False s "1.prems"(1) this] show ?thesis .
    qed
  qed
qed

lemma with_open_error:
  "(\<And>s c. \<exists>s'. step s c = Inr s') \<Longrightarrow> with_open fs filepath step n s = Inl e \<Longrightarrow> e = IOError"
  using read_loop_error [of step _ n 0 0 s e]
  by (auto simp: with_open_def split: option.splits node.splits if_splits)

lemma with_open_fails:
  assumes bad: "\<not> read_without_error fs filepath n"
    and sim: "rel_sum (=) R (with_open fs filepath step n s) (with_open fs filepath (\<lambda>s chunk. Inr s) n ())"
  shows "with_open fs filepath step n s = Inl IOError"
proof -
  from bad obtain e where e: "with_open fs filepath (\<lambda>s chunk. Inr s) n () = Inl e"
    by (cases "with_open fs filepath (\<lambda>s chunk. Inr s) n ()") (auto simp: read_without_error_def)
  have "\<And>(s::unit) (c::bytes). \<exists>s'. (Inr s :: error + unit) = Inr s'" by simp
  from with_open_error [of "\<lambda>s chunk. Inr s", OF this e] have "e = IOError" .
  with e sim show ?thesis by (cases "with_open fs filepath step n s") auto
qed

lemma io_error_both:
  assumes bad: "\<not> read_without_error fs filepath (chunk_size h)"
    and sup: "set (algorithm # algorithms) \<subseteq> insert ''crc32'' (set SUPPORTED_ALGORITHMS)"
  shows "calculate_hash L fs filepath algorithm h
           = (Inr None, h\<lparr>io := io h @ [OpenCall filepath, PrintedError filepath]\<rparr>)
       \<and> calculate_multiple_hashes L fs filepath algorithms h
           = (Inr [], h\<lparr>io := io h @ [OpenCall filepath, PrintedError filepath]\<rparr>)"
proof -
  have crc: "with_open fs filepath (\<lambda>crc chunk. Inr (crc32 L chunk crc)) (chunk_size h) 0 = Inl IOError"
    by (rule with_open_fails [OF bad, where R = "\<lambda>_ _. True"], rule with_open_sim) auto
  have hsh: "with_open fs filepath (\<lambda>hash_obj chunk. Inr (update L hash_obj chunk)) (chunk_size h)
               (new_hash L algorithm) = Inl IOError"
    by (rule with_open_fails [OF bad, where R = "\<lambda>_ _. True"], rule with_open_sim) auto
  have one: "calculate_hash L fs filepath algorithm h
           = (Inr None, h\<lparr>io := io h @ [OpenCall filepath, PrintedError filepath]\<rparr>)"
    using sup crc hsh
    by (auto simp: calculate_hash_def calculate_crc32_def calculate_cryptographic_hash_def Let_def)
  from sup have nb: "\<forall>a \<in> set algorithms. \<not> bad_algorithm a"
    by (auto simp: bad_algorithm_def)
  have "well_kinded ([] :: (string \<times> 'a hash_object) list)" by (simp add: well_kinded_def)
  from init_hash_objects_ok [OF nb this, of L] obtain objs where
    i: "init_hash_objects L algorithms [] = Inr objs" and wk: "well_kinded objs"
    by auto
  let ?R = "\<lambda>objs' (u::unit). well_kinded objs'"
  have "rel_sum (=) ?R (with_open fs filepath (update_objects L) (chunk_size h) objs)
          (with_open fs filepath (\<lambda>s chunk. Inr s) (chunk_size h) ())"
  proof (rule with_open_sim)
    show "?R objs ()" using wk by simp
  next
    fix s :: "(string \<times> 'a hash_object) list" and t :: unit and c
    assume "?R s t"
    then show "\<exists>s' t'. update_objects L s c = Inr s' \<and> Inr t = Inr t' \<and> ?R s' t'"
      by (auto simp: update_objects_ok well_kinded_advance comp_def case_prod_beta)
  qed
  from with_open_fails [OF bad this]
  have "calculate_multiple_hashes L fs filepath algorithms h
           = (Inr [], h\<lparr>io := io h @ [OpenCall filepath, PrintedError filepath]\<rparr>)"
    by (simp add: calculate_multiple_hashes_def i Let_def)
  with one show ?thesis by simp
qed

text \<open>
  Claim C2, as amended. When the file cannot be opened or a read of the pass fails, and the
  identifiers are supported, neither entry point raises: \<open>calculate_hash\<close> prints the error
  and returns \<^verbatim>\<open>None\<close>, \<open>calculate_multiple_hashes\<close> prints it and returns the empty dict.
  No digest, partial or not, is returned.
\<close>

theorem io_error_returns_no_digest:
  assumes "\<not> read_without_error fs filepath (chunk_size h)"
    and "set (algorithm # algorithms) \<subseteq> insert ''crc32'' (set SUPPORTED_ALGORITHMS)"
  shows "calculate_hash L fs filepath algorithm h
           = (Inr None, h\<lparr>io := io h @ [OpenCall filepath, PrintedError filepath]\<rparr>)
       \<and> calculate_multiple_hashes L fs filepath algorithms h
           = (Inr [], h\<lparr>io := io h @ [OpenCall filepath, PrintedError filepath]\<rparr>)"
  using assms by (rule io_error_both)

theorem io_error_returns_no_digest_witness:
  "\<not> read_without_error sample_fs ''bad.txt'' (chunk_size sample_hasher)
   \<and> set [''sha256'', ''md5'', ''crc32''] \<subseteq> insert ''crc32'' (set SUPPORTED_ALGORITHMS)
   \<and> calculate_hash sample_hashlib sample_fs ''bad.txt'' ''sha256'' sample_hasher
        = (Inr None,
           sample_hasher\<lparr>io := io sample_hasher @ [OpenCall ''bad.txt'', PrintedError ''bad.txt'']\<rparr>)
   \<and> calculate_multiple_hashes sample_hashlib sample_fs ''bad.txt'' [''md5'', ''crc32''] sample_hasher
        = (Inr [],
           sample_hasher\<lparr>io := io sample_hasher @ [OpenCall ''bad.txt'', PrintedError ''bad.txt'']\<rparr>)"
proof -
  have r: "\<not> read_without_error sample_fs ''bad.txt'' (chunk_size sample_hasher)"
    by (simp add: read_without_error_def with_open_def sample_fs_def sample_hasher_def
        read_loop.simps read_file_def)
  have s: "set (''sha256'' # [''md5'', ''crc32''])
             \<subseteq> insert ''crc32'' (set SUPPORTED_ALGORITHMS)"
    by (simp add: SUPPORTED_ALGORITHMS_def)
  from io_error_returns_no_digest [OF r s, of sample_hashlib] r s show ?thesis by simp
qed

text \<open>
  Claim C2 as stated fails: a file that cannot be opened, and a file whose second read
  fails, make neither entry point fail with \<^verbatim>\<open>IOError\<close>.
\<close>

theorem io_error_is_swallowed_counterexample:
  "fst (calculate_hash sample_hashlib sample_fs ''locked.txt'' ''sha256'' sample_hasher) \<noteq> Inl IOError
   \<and> fst (calculate_hash sample_hashlib sample_fs ''locked.txt'' ''sha256'' sample_hasher) = Inr None
   \<and> fst (calculate_multiple_hashes sample_hashlib sample_fs ''bad.txt'' [''md5'', ''crc32'']
            sample_hasher) \<noteq> Inl IOError
   \<and> fst (calculate_multiple_hashes sample_hashlib sample_fs ''bad.txt'' [''md5'', ''crc32'']
            sample_hasher) = Inr []"
  by (simp add: calculate_hash_def calculate_multiple_hashes_def calculate_cryptographic_hash_def
        SUPPORTED_ALGORITHMS_def with_open_def sample_fs_def sample_hasher_def sample_hashlib_def
        read_loop.simps read_file_def Let_def update_objects.simps update_object_def)
section \<open>Properties of the verifier\<close>

lemma io_calculate_hash:
  "calculate_hash L fs p a h = (x, h') \<Longrightarrow> set (io h') \<subseteq> set (io h) \<union> {OpenCall p, PrintedError p}"
  by (auto simp: calculate_hash_def Let_def split: if_splits sum.splits error.splits)

lemma io_calculate_multiple_hashes:
  "calculate_multiple_hashes L fs p as h = (x, h')
     \<Longrightarrow> set (io h') \<subseteq> set (io h) \<union> {OpenCall p, PrintedError p}"
  by (auto simp: calculate_multiple_hashes_def Let_def split: if_splits sum.splits error.splits)

lemma io_hash_file:
  assumes "hash_file L fs p as h = (x, h')"
  shows "set (io h') \<subseteq> set (io h) \<union> {OpenCall p, PrintedError p}"
  using assms
  by (auto simp: hash_file_def Let_def
           split: option.splits node.splits list.splits prod.splits sum.splits if_splits
           dest!: io_calculate_hash io_calculate_multiple_hashes)

lemma verify_entry_missing:
  "map_of d ''filepath'' = Some (JStr p) \<Longrightarrow> fs p = None \<Longrightarrow>
     verify_entry L fs algorithm (JDict d) (results, h)
       = Inr (results\<lparr>missing := missing results @ [(p, ''File not found'')]\<rparr>, h)"
  by (simp add: verify_entry_def)

lemma verify_entry_step:
  assumes "verify_entry L fs algorithm e (r, h) = Inr (r', h')" and "on_disk fs r"
  shows "on_disk fs r'" and "set (missing r) \<subseteq> set (missing r')"
    and "fs q = None \<Longrightarrow> OpenCall q \<in> set (io h') \<Longrightarrow> OpenCall q \<in> set (io h)"
  using assms
  by (auto simp: verify_entry_def on_disk_def Let_def
           split: json.splits option.splits prod.splits sum.splits if_splits hash_file_result.splits
           dest!: io_hash_file)

lemma verify_entries_run:
  assumes "verify_entries L fs algorithm es (r, h) = Inr (r', h')" and "on_disk fs r"
  shows "on_disk fs r' \<and> set (missing r) \<subseteq> set (missing r')
       \<and> (fs q = None \<longrightarrow> OpenCall q \<in> set (io h') \<longrightarrow> OpenCall q \<in> set (io h))
       \<and> (JDict d \<in> set es \<longrightarrow> map_of d ''filepath'' = Some (JStr p) \<longrightarrow> fs p = None
            \<longrightarrow> (p, ''File not found'') \<in> set (missing r'))"
  using assms
proof (induction es arbitrary: r h)
  case Nil
  then show ?case by simp
next
  case (Cons e es)
  from Cons.prems(1) obtain r1 h1 where
    s: "verify_entry L fs algorithm e (r, h) = Inr (r1, h1)"
    and rest: "verify_entries L fs algorithm es (r1, h1) = Inr (r', h')"
    by (cases "verify_entry L fs algorithm e (r, h)") auto
  note st = verify_entry_step [OF s Cons.prems(2)]
  note ih = Cons.IH [OF rest st(1)]
  have here: "(p, ''File not found'') \<in> set (missing r')"
    if "e = JDict d" and "map_of d ''filepath'' = Some (JStr p)" and "fs p = None"
  proof -
    from verify_entry_missing [of d p fs L algorithm r h] that s
    have "r1 = r\<lparr>missing := missing r @ [(p, ''File not found'')]\<rparr>" by simp
    then have "(p, ''File not found'') \<in> set (missing r1)" by simp
    with ih show ?thesis by blast
  qed
  from ih st here show ?case by auto
qed

lemma check_hashes_none:
  "distinct (map fst eh) \<Longrightarrow> fst ` set hm \<inter> fst ` set eh = {} \<Longrightarrow>
     check_hashes [] eh hm ov = Inr (hm @ map no_current eh, ov \<and> eh = [])"
proof (induction eh arbitrary: hm ov)
  case Nil
  then show ?case by simp
next
  case (Cons item eh)
  obtain a e where item: "item = (a, e)" by (cases item)
  let ?m = "\<lparr>expected = e, current = None, matches = MNone\<rparr>"
  from Cons.prems(2) item have fresh: "a \<notin> fst ` set hm" by auto
  have di: "distinct (map fst eh)" using Cons.prems(1) by simp
  have dj: "fst ` set (hm @ [(a, ?m)]) \<inter> fst ` set eh = {}"
    using Cons.prems item by auto
  show ?case
    using Cons.IH [OF di dj, of False] item
    by (simp add: compare_hash_def update_fresh [OF fresh] no_current_def)
qed

lemma hash_file_io_error:
  assumes f: "fs p = Some (File f)"
    and bad: "\<not> read_without_error fs p (chunk_size h)"
    and sup: "set algorithms \<subseteq> insert ''crc32'' (set SUPPORTED_ALGORITHMS)"
  shows "hash_file L fs p (Some algorithms) h
           = (Inr (FileInfo \<lparr>filename = basename p, fsize = length (file_bytes f), hashes = []\<rparr>),
              h\<lparr>io := io h @ [OpenCall p, PrintedError p],
                processed_files := processed_files h + 1,
                total_size := total_size h + length (file_bytes f)\<rparr>)"
proof (cases "\<exists>a. algorithms = [a]")
  case True
  then obtain a where a: "algorithms = [a]" by blast
  with sup have "set (a # []) \<subseteq> insert ''crc32'' (set SUPPORTED_ALGORITHMS)" by simp
  from io_error_both [OF bad this, of L] f a show ?thesis
    by (simp add: hash_file_def Let_def)
next
  case False
  from sup have "set (''crc32'' # algorithms) \<subseteq> insert ''crc32'' (set SUPPORTED_ALGORITHMS)"
    by simp
  from io_error_both [OF bad this, of L] f False show ?thesis
    by (cases algorithms rule: list.exhaust; cases "tl algorithms")
       (auto simp: hash_file_def Let_def)
qed

lemma sample_run_eq:
  "verify_hashes sample_hashlib sample_fs
     (JList [JDict sample_missing_entry, JDict sample_good_entry]) ''sha256'' sample_hasher
     = Inr sample_run"
  by code_simp

text \<open>
  Claim C5, as amended. An entry whose key \<^verbatim>\<open>'filepath'\<close> names a path that does not exist
  is put in the list \<open>missing\<close> with the reason \<^verbatim>\<open>File not found\<close>, and leaves the other
  lists and the hasher as they were: the file is not hashed. In the result of every
  verification that runs to its end and has this entry in its manifest, the path is in
  \<open>missing\<close> with that reason, no record of \<open>verified\<close>, \<open>failed\<close> or \<open>errors\<close> names it, and
  \<^verbatim>\<open>open\<close> was not called on it.
\<close>

theorem missing_file_is_classified_missing:
  assumes fp: "map_of d ''filepath'' = Some (JStr p)" and np: "fs p = None"
  shows "verify_entry L fs algorithm (JDict d) (results, h)
           = Inr (results\<lparr>missing := missing results @ [(p, ''File not found'')]\<rparr>, h)
       \<and> (\<forall>hash_data h0 results' h'.
             JDict d \<in> set (files_to_verify hash_data)
             \<longrightarrow> verify_hashes L fs hash_data algorithm h0 = Inr (results', h')
             \<longrightarrow> (p, ''File not found'') \<in> set (missing results')
                 \<and> p \<notin> vr_filepath ` set (verified results')
                 \<and> p \<notin> vr_filepath ` set (failed results')
                 \<and> p \<notin> fst ` set (errors results')
                 \<and> (OpenCall p \<in> set (io h') \<longrightarrow> OpenCall p \<in> set (io h0)))"
proof (intro conjI allI impI)
  show "verify_entry L fs algorithm (JDict d) (results, h)
           = Inr (results\<lparr>missing := missing results @ [(p, ''File not found'')]\<rparr>, h)"
    using fp np by (rule verify_entry_missing)
next
  fix hash_data h0 results' h'
  assume mem: "JDict d \<in> set (files_to_verify hash_data)"
    and run: "verify_hashes L fs hash_data algorithm h0 = Inr (results', h')"
  let ?r0 = "\<lparr>verified = [], failed = [], missing = [], errors = []\<rparr>"
  have od: "on_disk fs ?r0" by (simp add: on_disk_def)
  from run have run': "verify_entries L fs algorithm (files_to_verify hash_data) (?r0, h0)
                        = Inr (results', h')"
    by (simp add: verify_hashes_def)
  note inv = verify_entries_run [OF run' od, of p d p]
  from inv mem fp np show "(p, ''File not found'') \<in> set (missing results')" by blast
  from inv np show "p \<notin> vr_filepath ` set (verified results')" by (auto simp: on_disk_def)
  from inv np show "p \<notin> vr_filepath ` set (failed results')" by (auto simp: on_disk_def)
  from inv np show "p \<notin> fst ` set (errors results')" by (auto simp: on_disk_def)
  assume "OpenCall p \<in> set (io h')"
  with inv np show "OpenCall p \<in> set (io h0)" by blast
qed

theorem missing_file_is_classified_missing_witness:
  "map_of sample_missing_entry ''filepath'' = Some (JStr ''missing.txt'')
   \<and> sample_fs ''missing.txt'' = None
   \<and> verify_entry sample_hashlib sample_fs ''sha256'' (JDict sample_missing_entry)
         (no_results, sample_hasher)
       = Inr (no_results\<lparr>missing := missing no_results @ [(''missing.txt'', ''File not found'')]\<rparr>,
              sample_hasher)
   \<and> JDict sample_missing_entry
         \<in> set (files_to_verify (JList [JDict sample_missing_entry, JDict sample_good_entry]))
   \<and> verify_hashes sample_hashlib sample_fs
         (JList [JDict sample_missing_entry, JDict sample_good_entry]) ''sha256'' sample_hasher
       = Inr sample_run
   \<and> (''missing.txt'', ''File not found'') \<in> set (missing (fst sample_run))
   \<and> ''missing.txt'' \<notin> vr_filepath ` set (failed (fst sample_run))"
proof -
  let ?m = "JList [JDict sample_missing_entry, JDict sample_good_entry]"
  have a: "map_of sample_missing_entry ''filepath'' = Some (JStr ''missing.txt'')"
    by (simp add: sample_missing_entry_def)
  have b: "sample_fs ''missing.txt'' = None" by (simp add: sample_fs_def)
  have c: "JDict sample_missing_entry \<in> set (files_to_verify ?m)"
    by (simp add: files_to_verify_def)
  have run: "verify_hashes sample_hashlib sample_fs ?m ''sha256'' sample_hasher
               = Inr (fst sample_run, snd sample_run)"
    by (simp add: sample_run_eq)
  note t = missing_file_is_classified_missing [where d = sample_missing_entry
      and p = "''missing.txt''" and fs = sample_fs and L = sample_hashlib
      and algorithm = "''sha256''" and results = no_results and h = sample_hasher, OF a b]
  from t have step: "verify_entry sample_hashlib sample_fs ''sha256'' (JDict sample_missing_entry)
         (no_results, sample_hasher)
       = Inr (no_results\<lparr>missing := missing no_results @ [(''missing.txt'', ''File not found'')]\<rparr>,
              sample_hasher)" by (rule conjunct1)
  from t c run have "(''missing.txt'', ''File not found'') \<in> set (missing (fst sample_run))
     \<and> ''missing.txt'' \<notin> vr_filepath ` set (failed (fst sample_run))"
    by blast
  with a b c step sample_run_eq show ?thesis by simp
qed

text \<open>
  Claim C5 as stated fails on the scenario's own entry: it has no key \<^verbatim>\<open>'filepath'\<close>, so
  the path is \<^verbatim>\<open>None\<close>, \<^verbatim>\<open>os.path.exists(None)\<close> raises \<^verbatim>\<open>TypeError\<close>, and the verification
  ends with that exception instead of a list \<open>missing\<close>.
\<close>

theorem entry_keyed_path_counterexample:
  "sample_fs ''missing.txt'' = None
   \<and> verify_hashes sample_hashlib sample_fs spec_example ''sha256'' sample_hasher = Inl TypeError"
  by (simp add: spec_example_def verify_hashes_def files_to_verify_def verify_entry_def sample_fs_def)

text \<open>
  Claim C6, as amended. An entry that names an existing regular file and at least one
  expected digest, all of supported algorithms, and whose file cannot be opened or read
  to its end, is put in the list \<open>failed\<close>, not in \<open>errors\<close>: every algorithm is recorded
  with its expected digest and no current one, the error is printed by the digest engine
  and not carried in the record. The file counts as processed, and the verification goes
  on with the entries that follow.
\<close>

theorem io_error_entry_is_classified_failed:
  assumes fp: "map_of d ''filepath'' = Some (JStr p)"
    and hs: "map_of d ''hashes'' = Some (JDict eh)"
    and ne: "eh \<noteq> []" and dk: "distinct (map fst eh)"
    and sup: "set (map fst eh) \<subseteq> insert ''crc32'' (set SUPPORTED_ALGORITHMS)"
    and f: "fs p = Some (File f)"
    and bad: "\<not> read_without_error fs p (chunk_size h)"
  shows "verify_entries L fs algorithm (JDict d # rest) (results, h)
           = verify_entries L fs algorithm rest
               (results\<lparr>failed := failed results @
                  [\<lparr>vr_filepath = p, vr_filename = basename p, vr_size = length (file_bytes f),
                    hash_matches = map no_current eh, overall_match = False\<rparr>]\<rparr>,
                h\<lparr>io := io h @ [OpenCall p, PrintedError p],
                  processed_files := processed_files h + 1,
                  total_size := total_size h + length (file_bytes f)\<rparr>)"
proof -
  have c: "check_hashes [] eh [] True = Inr (map no_current eh, False)"
    using check_hashes_none [OF dk, of "[]" True] ne by simp
  have "verify_entry L fs algorithm (JDict d) (results, h)
          = Inr (results\<lparr>failed := failed results @
                  [\<lparr>vr_filepath = p, vr_filename = basename p, vr_size = length (file_bytes f),
                    hash_matches = map no_current eh, overall_match = False\<rparr>]\<rparr>,
                h\<lparr>io := io h @ [OpenCall p, PrintedError p],
                  processed_files := processed_files h + 1,
                  total_size := total_size h + length (file_bytes f)\<rparr>)"
    by (simp add: verify_entry_def fp hs f hash_file_io_error [OF f bad sup] c)
  then show ?thesis by simp
qed

theorem io_error_entry_is_classified_failed_witness:
  "map_of sample_bad_entry ''filepath'' = Some (JStr ''bad.txt'')
   \<and> map_of sample_bad_entry ''hashes'' = Some (JDict [(''sha256'', JStr ''abc'')])
   \<and> [(''sha256'', JStr ''abc'')] \<noteq> []
   \<and> distinct (map fst [(''sha256'', JStr ''abc'')])
   \<and> set (map fst [(''sha256'', JStr ''abc'')]) \<subseteq> insert ''crc32'' (set SUPPORTED_ALGORITHMS)
   \<and> sample_fs ''bad.txt''
       = Some (File \<lparr>file_bytes = [104, 105, 33], open_ok = True, fail_read = Some 1\<rparr>)
   \<and> \<not> read_without_error sample_fs ''bad.txt'' (chunk_size sample_hasher)
   \<and> verify_entries sample_hashlib sample_fs ''sha256''
         [JDict sample_bad_entry, JDict sample_missing_entry] (no_results, sample_hasher)
       = verify_entries sample_hashlib sample_fs ''sha256'' [JDict sample_missing_entry]
           (no_results\<lparr>failed := [sample_failed_record]\<rparr>,
            sample_hasher\<lparr>io := [OpenCall ''bad.txt'', PrintedError ''bad.txt''],
               processed_files := 1, total_size := 3\<rparr>)"
proof -
  let ?f = "\<lparr>file_bytes = [104, 105, 33], open_ok = True, fail_read = Some 1\<rparr>"
  let ?eh = "[(''sha256'', JStr ''abc'')]"
  have a: "map_of sample_bad_entry ''filepath'' = Some (JStr ''bad.txt'')"
    by (simp add: sample_bad_entry_def)
  have b: "map_of sample_bad_entry ''hashes'' = Some (JDict ?eh)"
    by (simp add: sample_bad_entry_def)
  have c: "?eh \<noteq> []" by simp
  have d: "distinct (map fst ?eh)" by simp
  have e: "set (map fst ?eh) \<subseteq> insert ''crc32'' (set SUPPORTED_ALGORITHMS)"
    by (simp add: SUPPORTED_ALGORITHMS_def)
  have f: "sample_fs ''bad.txt'' = Some (File ?f)" by (simp add: sample_fs_def)
  have g: "\<not> read_without_error sample_fs ''bad.txt'' (chunk_size sample_hasher)"
    by (simp add: read_without_error_def with_open_def sample_fs_def sample_hasher_def
        read_loop.simps read_file_def)
  note t = io_error_entry_is_classified_failed [where d = sample_bad_entry and p = "''bad.txt''"
      and eh = ?eh and fs = sample_fs and f = ?f and h = sample_hasher and L = sample_hashlib
      and algorithm = "''sha256''" and rest = "[JDict sample_missing_entry]"
      and results = no_results, OF a b c d e f g]
  have r: "no_results\<lparr>failed := failed no_results @
             [\<lparr>vr_filepath = ''bad.txt'', vr_filename = basename ''bad.txt'',
               vr_size = length (file_bytes ?f), hash_matches = map no_current ?eh,
               overall_match = False\<rparr>]\<rparr>
           = no_results\<lparr>failed := [sample_failed_record]\<rparr>"
    by (simp add: no_results_def sample_failed_record_def basename_def no_current_def)
  have h: "sample_hasher\<lparr>io := io sample_hasher @ [OpenCall ''bad.txt'', PrintedError ''bad.txt''],
               processed_files := processed_files sample_hasher + 1,
               total_size := total_size sample_hasher + length (file_bytes ?f)\<rparr>
           = sample_hasher\<lparr>io := [OpenCall ''bad.txt'', PrintedError ''bad.txt''],
               processed_files := 1, total_size := 3\<rparr>"
    by (simp add: sample_hasher_def)
  from t have "verify_entries sample_hashlib sample_fs ''sha256''
         [JDict sample_bad_entry, JDict sample_missing_entry] (no_results, sample_hasher)
       = verify_entries sample_hashlib sample_fs ''sha256'' [JDict sample_missing_entry]
           (no_results\<lparr>failed := [sample_failed_record]\<rparr>,
            sample_hasher\<lparr>io := [OpenCall ''bad.txt'', PrintedError ''bad.txt''],
               processed_files := 1, total_size := 3\<rparr>)"
    unfolding r h .
  with a b c d e f g show ?thesis by blast
qed

text \<open>
  Claim C6 as stated fails: the second read of \<^verbatim>\<open>bad.txt\<close> raises, and the entry is
  classified as failed, with the list \<open>errors\<close> empty.
\<close>

theorem io_error_entry_counterexample:
  "sample_fs ''bad.txt''
     = Some (File \<lparr>file_bytes = [104, 105, 33], open_ok = True, fail_read = Some 1\<rparr>)
   \<and> verify_hashes sample_hashlib sample_fs (JList [JDict sample_bad_entry]) ''sha256'' sample_hasher
     = Inr (\<lparr>verified = [], failed = [sample_failed_record], missing = [], errors = []\<rparr>,
            \<lparr>chunk_size = 2, processed_files = 1, total_size = 3,
             io = [OpenCall ''bad.txt'', PrintedError ''bad.txt'']\<rparr>)"
  by code_simp
section \<open>Properties of the line parser\<close>

lemma fields_from_nonempty:
  "cur \<noteq> [] \<or> (\<exists>c \<in> set s. \<not> isspace c) \<Longrightarrow> fields_from cur s \<noteq> []"
  by (induction s arbitrary: cur) auto

lemma fields_from_nospace:
  "\<forall>c \<in> set s. \<not> isspace c \<Longrightarrow> fields_from cur s = (if cur @ s = [] then [] else [cur @ s])"
  by (induction s arbitrary: cur) auto

lemma fields_from_token:
  "\<forall>c \<in> set a. \<not> isspace c \<Longrightarrow> isspace w \<Longrightarrow>
     fields_from cur (a @ w # b) =
       (if cur @ a = [] then fields_from [] b else (cur @ a) # fields_from [] b)"
  by (induction a arbitrary: cur) auto

lemma fields_from_spaces:
  "\<forall>c \<in> set s. isspace c \<Longrightarrow> fields_from [] s = []"
  by (induction s) auto

lemma strip_Nil_or:
  "strip s = [] \<or> (\<not> isspace (hd (strip s)) \<and> \<not> isspace (last (strip s)))"
proof (cases "strip s = []")
  case True
  then show ?thesis by simp
next
  case False
  let ?t = "dropWhile isspace s"
  have t: "?t \<noteq> []"
  proof
    assume a: "?t = []"
    have "strip s = []" unfolding strip_def a by simp
    with False show False by simp
  qed
  then have h: "\<not> isspace (hd ?t)" by (rule hd_dropWhile)
  from False have r: "dropWhile isspace (rev ?t) \<noteq> []" by (simp add: strip_def)
  then have l: "\<not> isspace (hd (dropWhile isspace (rev ?t)))" by (rule hd_dropWhile)
  have last: "last (strip s) = hd (dropWhile isspace (rev ?t))"
    using r by (simp add: strip_def last_rev)
  from h t have "rev ?t = rev (tl ?t) @ [hd ?t]" by (cases ?t) auto
  then have "dropWhile isspace (rev ?t) = dropWhile isspace (rev (tl ?t)) @ [hd ?t]"
    using h by (simp add: dropWhile_append3)
  then have "strip s = hd ?t # rev (dropWhile isspace (rev (tl ?t)))"
    by (simp add: strip_def)
  then have "hd (strip s) = hd ?t" by simp
  with h l last show ?thesis by simp
qed

lemma stripped_cases:
  assumes ne: "line \<noteq> []" and h: "\<not> isspace (hd line)" and l: "\<not> isspace (last line)"
  obtains (one) "\<forall>c \<in> set line. \<not> isspace c"
    | (two) t w b where "line = t @ w # b" and "\<forall>c \<in> set t. \<not> isspace c" and "t \<noteq> []"
        and "isspace w" and "b \<noteq> []" and "\<not> isspace (last b)"
proof (cases "dropWhile (\<lambda>c. \<not> isspace c) line")
  case Nil
  then have "\<forall>c \<in> set line. \<not> isspace c" by (simp add: dropWhile_eq_Nil_conv)
  then show ?thesis by (rule one)
next
  case (Cons w b)
  let ?t = "takeWhile (\<lambda>c. \<not> isspace c) line"
  have "?t @ dropWhile (\<lambda>c. \<not> isspace c) line = line" by (rule takeWhile_dropWhile_id)
  then have eq: "?t @ w # b = line" by (simp only: Cons)
  have w: "isspace w" using hd_dropWhile [of "\<lambda>c. \<not> isspace c" line] Cons by simp
  have t: "\<forall>c \<in> set ?t. \<not> isspace c" by (auto dest: set_takeWhileD)
  from ne h have tne: "?t \<noteq> []" by (cases line) auto
  have "last (?t @ w # b) = last (w # b)" by simp
  with eq have lw: "last line = last (w # b)" by (simp only:)
  have bne: "b \<noteq> []"
  proof
    assume "b = []"
    with lw have "last line = w" by simp
    with l w show False by simp
  qed
  with lw have "last line = last b" by simp
  with l have lb: "\<not> isspace (last b)" by simp
  from eq [symmetric] t tne w bne lb show ?thesis by (rule two)
qed

lemma split_two:
  assumes t: "\<forall>c \<in> set t. \<not> isspace c" and tne: "t \<noteq> []" and w: "isspace w"
    and bne: "b \<noteq> []" and lb: "\<not> isspace (last b)"
  shows "split_None_1 (t @ w # b) = [t, dropWhile isspace b]"
    and "\<not> length (fields (t @ w # b)) < 2"
    and "takeWhile (\<lambda>c. \<not> isspace c) (t @ w # b) = t"
    and "dropWhile isspace (dropWhile (\<lambda>c. \<not> isspace c) (t @ w # b)) = dropWhile isspace b"
proof -
  from bne lb have ex: "\<exists>c \<in> set b. \<not> isspace c" using last_in_set by blast
  then have d: "dropWhile isspace b \<noteq> []" by (auto simp: dropWhile_eq_Nil_conv)
  from tne t have hd: "\<not> isspace (hd t)" by (cases t) auto
  with tne have d0: "dropWhile isspace (t @ w # b) = t @ w # b" by (cases t) auto
  from t w show tk: "takeWhile (\<lambda>c. \<not> isspace c) (t @ w # b) = t"
    by (simp add: takeWhile_append2 takeWhile_tail)
  from t w have dr: "dropWhile (\<lambda>c. \<not> isspace c) (t @ w # b) = w # b"
    by (simp add: dropWhile_append2 dropWhile_append3)
  with w show "dropWhile isspace (dropWhile (\<lambda>c. \<not> isspace c) (t @ w # b)) = dropWhile isspace b"
    by simp
  with d0 tk d tne show "split_None_1 (t @ w # b) = [t, dropWhile isspace b]"
    by (simp add: split_None_1_def Let_def)
  from ex have fb: "fields_from [] b \<noteq> []" by (simp add: fields_from_nonempty)
  have "fields (t @ w # b) = t # fields_from [] b"
    unfolding fields_def using fields_from_token [OF t w, of "[]" b] tne by simp
  with fb show "\<not> length (fields (t @ w # b)) < 2" by (cases "fields_from [] b") auto
qed

lemma split_one:
  assumes "\<forall>c \<in> set line. \<not> isspace c" and "line \<noteq> []"
  shows "split_None_1 line = [line]" and "length (fields line) < 2"
proof -
  from assms have d: "dropWhile isspace line = line" by (cases line) auto
  from assms(1) have tk: "takeWhile (\<lambda>c. \<not> isspace c) line = line"
    by (simp add: takeWhile_eq_all_conv)
  from assms(1) have dr: "dropWhile (\<lambda>c. \<not> isspace c) line = []"
    by (simp add: dropWhile_eq_Nil_conv)
  show "split_None_1 line = [line]"
    unfolding split_None_1_def Let_def d tk dr using assms(2) by simp
  from assms show "length (fields line) < 2" by (simp add: fields_def fields_from_nospace)
qed

lemma parse_line_step:
  "parse_lines (raw # lines) results = parse_lines lines (results @ line_entry raw)"
proof (cases "strip raw = []")
  case True
  then show ?thesis by (simp add: line_entry_def fields_def startswith_def)
next
  case False
  with strip_Nil_or [of raw]
  have h: "\<not> isspace (hd (strip raw))" and l: "\<not> isspace (last (strip raw))" by auto
  show ?thesis
  proof (cases "startswith (strip raw) CHR ''#''")
    case True
    then show ?thesis by (simp add: line_entry_def)
  next
    case notc: False
    from False h l show ?thesis
    proof (cases rule: stripped_cases)
      case one
      from split_one [OF one False] False notc show ?thesis
        by (simp add: line_entry_def)
    next
      case (two t w b)
      from split_two [OF two(2-6)] two(1) False notc show ?thesis
        by (simp add: line_entry_def Let_def)
    qed
  qed
qed

lemma parse_lines_eq:
  "parse_lines lines results = results @ concat (map line_entry lines)"
proof (induction lines arbitrary: results)
  case Nil
  show ?case by simp
next
  case (Cons raw lines)
  show ?case unfolding parse_line_step Cons.IH by simp
qed

text \<open>
  Claim C10, as amended. For every text the parser returns, in the order of the lines, one
  entry for each line that is no comment and has at least two white-space separated
  fields: the digest is the first field, the path is the rest of the line after the white
  space that follows the digest (so a path may contain white space), less one leading
  asterisk. Every other line (blank, comment, a single field) gives no entry; the result
  is a plain list of entries, with no error and no report of the lines dropped.
\<close>

theorem parse_one_entry_per_line_with_two_fields:
  "parse_simple_hash_file content default_algorithm
     = concat (map line_entry (split_on (CHR 0x0A) (strip content)))"
  by (simp add: parse_simple_hash_file_def parse_lines_eq)

theorem parse_one_entry_per_line_with_two_fields_witness:
  "parse_simple_hash_file (''abc  *a.txt'' @ [CHR 0x0A] @ ''# note'' @ [CHR 0x0A, CHR 0x0A] @ ''lonely'') ''sha256''
       = [JDict [(''filepath'', JStr ''a.txt''), (''hash'', JStr ''abc'')]]"
  by (subst parse_one_entry_per_line_with_two_fields) code_simp

text \<open>
  Claim C10 as stated fails for a line of three fields: it does not split into exactly
  two fields, and yet it gives an entry.
\<close>

theorem three_fields_counterexample:
  "length (fields ''abc my file.txt'') = 3
   \<and> parse_simple_hash_file ''abc my file.txt'' ''sha256''
       = [JDict [(''filepath'', JStr ''my file.txt''), (''hash'', JStr ''abc'')]]"
  by code_simp

end
